theory Spec2Isabelle
  imports Complex_Main "HOL-Library.Word"
begin

section \<open>JavaScript values used by bandsaw\<close>

text \<open>
  The bounds of \<open>trimCanvas\<close> start as \<open>null\<close>, become numbers during the scan, and
  can become \<open>NaN\<close> or \<open>undefined\<close> in the padding and clamping steps. The values
  are therefore modelled with their JavaScript kind. Finite numbers are integers here:
  pixel coordinates and integer paddings of magnitude below \<open>2 ^ 53\<close> are exact in IEEE
  double arithmetic, and on them \<open>+\<close>, \<open>-\<close> and the comparisons agree with the
  integers. A padding with a fractional part makes \<open>+\<close> and \<open>-\<close> round; the padding,
  the clamping and the returned record are modelled a second time for that, on doubles, in
  the section on double arithmetic below. Infinite paddings are outside both models.
\<close>

datatype jsval = Null | Undefined | NaN | Num int

text \<open>\<open>ToNumber\<close>: \<open>null\<close> is 0, \<open>undefined\<close> is \<open>NaN\<close> (written \<open>None\<close>).\<close>

fun toNumber :: "jsval \<Rightarrow> int option" where
  "toNumber Null = Some 0"
| "toNumber Undefined = None"
| "toNumber NaN = None"
| "toNumber (Num n) = Some n"

definition ofNumber :: "int option \<Rightarrow> jsval" where
  "ofNumber r = (case r of None \<Rightarrow> NaN | Some n \<Rightarrow> Num n)"

text \<open>Binary \<open>-\<close> and, on operands that are not strings, binary \<open>+\<close>.\<close>

definition js_sub :: "jsval \<Rightarrow> jsval \<Rightarrow> jsval" where
  "js_sub a b = (case (toNumber a, toNumber b) of
                   (Some x, Some y) \<Rightarrow> Num (x - y)
                 | _ \<Rightarrow> NaN)"

definition js_add :: "jsval \<Rightarrow> jsval \<Rightarrow> jsval" where
  "js_add a b = (case (toNumber a, toNumber b) of
                   (Some x, Some y) \<Rightarrow> Num (x + y)
                 | _ \<Rightarrow> NaN)"

text \<open>The relational operators: false as soon as one side converts to \<open>NaN\<close>.\<close>

definition js_lt :: "jsval \<Rightarrow> jsval \<Rightarrow> bool" where
  "js_lt a b = (case (toNumber a, toNumber b) of
                  (Some x, Some y) \<Rightarrow> x < y
                | _ \<Rightarrow> False)"

definition js_gt :: "jsval \<Rightarrow> jsval \<Rightarrow> bool" where
  "js_gt a b = js_lt b a"

definition js_le :: "jsval \<Rightarrow> jsval \<Rightarrow> bool" where
  "js_le a b = (case (toNumber a, toNumber b) of
                  (Some x, Some y) \<Rightarrow> x \<le> y
                | _ \<Rightarrow> False)"

definition js_ge :: "jsval \<Rightarrow> jsval \<Rightarrow> bool" where
  "js_ge a b = js_le b a"

text \<open>Logical not \<open>!v\<close>: true on the falsy values \<open>null\<close>, \<open>undefined\<close>, \<open>NaN\<close>, \<open>0\<close>.\<close>

fun js_not :: "jsval \<Rightarrow> bool" where
  "js_not Null = True"
| "js_not Undefined = True"
| "js_not NaN = True"
| "js_not (Num n) = (n = 0)"

text \<open>Strict inequality with the literal 0, \<open>v !== 0\<close>.\<close>

definition not_strict_zero :: "jsval \<Rightarrow> bool" where
  "not_strict_zero v = (v \<noteq> Num 0)"

section \<open>The helpers \<open>isBetween\<close> and \<open>clamp\<close>\<close>

text \<open>
  \<^verbatim>\<open>
  function isBetween(value, min, max) {
    return (!min && min !== 0) || (!max && max !== 0) || arguments.length < 3
      ? false
      : value >= min && value <= max;
  }
  \<close>
  Every call in the source passes three arguments, so \<open>arguments.length < 3\<close> is false.
\<close>

definition isBetween :: "jsval \<Rightarrow> jsval \<Rightarrow> jsval \<Rightarrow> bool" where
  "isBetween v mn mx =
     (if (js_not mn \<and> not_strict_zero mn) \<or> (js_not mx \<and> not_strict_zero mx) \<or> False
      then False
      else js_ge v mn \<and> js_le v mx)"

text \<open>
  \<^verbatim>\<open>
  function clamp(value, min, max) {
    if (isBetween(value, min, max)) return value;
    else if (value < min) return min;
    else if (value > max) return max;
  }
  \<close>
  A call that leaves the last \<open>if\<close> without returning yields \<open>undefined\<close>.
\<close>

definition clamp :: "jsval \<Rightarrow> jsval \<Rightarrow> jsval \<Rightarrow> jsval" where
  "clamp v mn mx =
     (if isBetween v mn mx then v
      else if js_lt v mn then mn
      else if js_gt v mx then mx
      else Undefined)"

section \<open>The canvas and the bounds scan\<close>

text \<open>
  The painted canvas: its dimensions and the samples that
  \<open>context.getImageData(0, 0, canvas.width, canvas.height)\<close> reads back, four bytes
  (R, G, B, A) per pixel, row by row from the top left.
\<close>

record canvas =
  canvas_width :: nat
  canvas_height :: nat
  pixels_data :: "8 word list"

definition wf_canvas :: "canvas \<Rightarrow> bool" where
  "wf_canvas c = (length (pixels_data c) = canvas_width c * canvas_height c * 4)"

text \<open>The object \<open>bound\<close>, with its keys in insertion order.\<close>

record bound =
  bound_top :: jsval
  bound_left :: jsval
  bound_right :: jsval
  bound_bottom :: jsval

datatype key = Top | Left | Right | Bottom

definition keys :: "key list" where
  "keys = [Top, Left, Right, Bottom]"

fun get :: "bound \<Rightarrow> key \<Rightarrow> jsval" where
  "get b Top = bound_top b"
| "get b Left = bound_left b"
| "get b Right = bound_right b"
| "get b Bottom = bound_bottom b"

fun put :: "key \<Rightarrow> jsval \<Rightarrow> bound \<Rightarrow> bound" where
  "put Top v b = b\<lparr>bound_top := v\<rparr>"
| "put Left v b = b\<lparr>bound_left := v\<rparr>"
| "put Right v b = b\<lparr>bound_right := v\<rparr>"
| "put Bottom v b = b\<lparr>bound_bottom := v\<rparr>"

definition initial_bound :: bound where
  "initial_bound = \<lparr>bound_top = Null, bound_left = Null, bound_right = Null, bound_bottom = Null\<rparr>"

text \<open>
  \<open>~~v\<close> truncates to a signed 32-bit integer. The quotient \<open>i / 4 / canvas.width\<close>
  is taken on an \<open>i\<close> that is a multiple of 4 and below \<open>2 ^ 53\<close>, where truncating the
  double quotient gives the integer quotient.
\<close>

definition toInt32 :: "int \<Rightarrow> int" where
  "toInt32 n = (n + 2 ^ 31) mod 2 ^ 32 - 2 ^ 31"

text \<open>
  \<open>x = (i / 4) % canvas.width\<close> and \<open>y = ~~(i / 4 / canvas.width)\<close>. A zero width
  makes the remainder \<open>NaN\<close> and the quotient infinite or \<open>NaN\<close>, which \<open>~~\<close> turns
  into 0.
\<close>

definition pixel_x :: "canvas \<Rightarrow> nat \<Rightarrow> jsval" where
  "pixel_x c i = (if canvas_width c = 0 then NaN
                  else Num (int ((i div 4) mod canvas_width c)))"

definition pixel_y :: "canvas \<Rightarrow> nat \<Rightarrow> jsval" where
  "pixel_y c i = (if canvas_width c = 0 then Num 0
                  else Num (toInt32 (int ((i div 4) div canvas_width c))))"

text \<open>
  \<open>pixels.data[i + 3] !== 0\<close>: a read past the end of the typed array gives
  \<open>undefined\<close>, which is not 0.
\<close>

definition alpha_nonzero :: "canvas \<Rightarrow> nat \<Rightarrow> bool" where
  "alpha_nonzero c i =
     (if i + 3 < length (pixels_data c) then pixels_data c ! (i + 3) \<noteq> 0 else True)"

text \<open>
  The body of the scan loop:
  \<^verbatim>\<open>
  if (pixels.data[i + 3] !== 0) {
    x = (i / 4) % canvas.width;
    y = ~~(i / 4 / canvas.width);
    bound.top = bound.top === null ? y : bound.top;
    bound.left = bound.left === null || x < bound.left ? x : bound.left;
    bound.right = bound.right === null || bound.right < x ? x : bound.right;
    bound.bottom = bound.bottom === null || bound.bottom < y ? y : bound.bottom;
  }
  \<close>
\<close>

definition scan_step :: "canvas \<Rightarrow> nat \<Rightarrow> bound \<Rightarrow> bound" where
  "scan_step c i b =
     (if alpha_nonzero c i then
        (let x = pixel_x c i; y = pixel_y c i in
         \<lparr>bound_top = (if bound_top b = Null then y else bound_top b),
          bound_left = (if bound_left b = Null \<or> js_lt x (bound_left b) then x else bound_left b),
          bound_right = (if bound_right b = Null \<or> js_lt (bound_right b) x then x else bound_right b),
          bound_bottom = (if bound_bottom b = Null \<or> js_lt (bound_bottom b) y then y else bound_bottom b)\<rparr>)
      else b)"

text \<open>\<open>for (i = 0; i < l; i += 4) ...\<close> with \<open>l = pixels.data.length\<close>.\<close>

function scan_loop :: "canvas \<Rightarrow> nat \<Rightarrow> bound \<Rightarrow> bound" where
  "scan_loop c i b =
     (if i < length (pixels_data c) then scan_loop c (i + 4) (scan_step c i b) else b)"
  by pat_completeness auto
termination
  by (relation "measure (\<lambda>(c, i, b). length (pixels_data c) - i)") auto

declare scan_loop.simps [simp del]

definition scan :: "canvas \<Rightarrow> bound" where
  "scan c = scan_loop c 0 initial_bound"

section \<open>Padding and clamping\<close>

text \<open>
  \<^verbatim>\<open>
  Object.keys(bound).forEach((key) => {
    bound[key] = /left|top/.test(key) ? bound[key] - padding : bound[key] + padding;
  });
  Object.keys(bound).forEach((key) => {
    bound[key] = clamp(bound[key], 0, /left|right/i.test(key) ? canvas.width : canvas.height);
  });
  \<close>
\<close>

fun is_left_or_top :: "key \<Rightarrow> bool" where
  "is_left_or_top Top = True"
| "is_left_or_top Left = True"
| "is_left_or_top Right = False"
| "is_left_or_top Bottom = False"

fun is_left_or_right :: "key \<Rightarrow> bool" where
  "is_left_or_right Top = False"
| "is_left_or_right Left = True"
| "is_left_or_right Right = True"
| "is_left_or_right Bottom = False"

definition pad_key :: "jsval \<Rightarrow> key \<Rightarrow> bound \<Rightarrow> bound" where
  "pad_key padding k b =
     put k (if is_left_or_top k then js_sub (get b k) padding else js_add (get b k) padding) b"

definition addPadding :: "jsval \<Rightarrow> bound \<Rightarrow> bound" where
  "addPadding padding b = fold (pad_key padding) keys b"

definition clamp_key :: "canvas \<Rightarrow> key \<Rightarrow> bound \<Rightarrow> bound" where
  "clamp_key c k b =
     put k (clamp (get b k) (Num 0)
              (if is_left_or_right k then Num (int (canvas_width c))
               else Num (int (canvas_height c)))) b"

definition clampBounds :: "canvas \<Rightarrow> bound \<Rightarrow> bound" where
  "clampBounds c b = fold (clamp_key c) keys b"

text \<open>The bounds that the rest of \<open>trimCanvas\<close> works with.\<close>

definition cropBounds :: "canvas \<Rightarrow> jsval \<Rightarrow> bound" where
  "cropBounds c padding = clampBounds c (addPadding padding (scan c))"

section \<open>The host: file system and browser\<close>

text \<open>
  \<open>trim\<close> reads the file system and runs in a browser page; neither is part of the
  repository. What the code learns from them is a parameter of the model:
  \<^item> \<open>exists\<close> is \<open>fs.existsSync(path.resolve(p))\<close>, \<open>isFolder\<close> is
    \<open>fs.lstatSync(path.resolve(p)).isDirectory()\<close>, \<open>readdir\<close> is the pair
    \<open>(err, files)\<close> that \<open>fs.readdir\<close> hands to its callback;
  \<^item> \<open>source\<close> is what happens to a file between \<open>encodeAsBase64\<close> and the
    \<open>onload\<close> callback of \<open>trimItem\<close>: an exception inside the \<open>try\<close> block (the
    file cannot be read, or its header is too short for \<open>getPngDimensions\<close>), an image
    that never fires \<open>onload\<close>, or the canvas painted by \<open>drawImage\<close>;
  \<^item> \<open>writeFileSync\<close> is the exception, if any, of \<open>fs.writeFileSync\<close> on a path.
\<close>

datatype error = IndexSizeError | HostError string

datatype source = Unreadable error | Undecoded | Painted canvas

record env =
  exists :: "string \<Rightarrow> bool"
  isFolder :: "string \<Rightarrow> bool"
  readdir :: "string \<Rightarrow> error + string list"
  source :: "string \<Rightarrow> source"
  writeFileSync :: "string \<Rightarrow> error option"

text \<open>
  \<open>context.getImageData(sx, sy, sw, sh)\<close> is the canvas API of the browser: it throws
  when the width or the height of the requested rectangle is zero (\<open>IndexSizeError\<close>) or
  is not a number. \<open>trimCanvas\<close> calls it twice, for the whole canvas and for the crop.
\<close>

definition getImageData_throws :: "jsval \<Rightarrow> jsval \<Rightarrow> bool" where
  "getImageData_throws sw sh =
     (toNumber sw = None \<or> toNumber sw = Some 0 \<or> toNumber sh = None \<or> toNumber sh = Some 0)"

section \<open>\<open>trimCanvas\<close>\<close>

record cropResult =
  name :: string
  fullName :: string
  path :: string
  left :: jsval
  top' :: jsval
  right :: jsval
  bottom :: jsval
  width :: jsval
  height :: jsval
  naturalWidth :: jsval
  naturalHeight :: jsval
  geometricBounds :: "jsval list"

text \<open>\<open>filepath.split(/(\/|\\)/).pop()\<close>: what follows the last slash or backslash.\<close>

definition is_separator :: "char \<Rightarrow> bool" where
  "is_separator ch = (ch = CHR ''/'' \<or> ch = CHR 0x5C)"

definition last_segment :: "string \<Rightarrow> string" where
  "last_segment s = rev (takeWhile (\<lambda>ch. \<not> is_separator ch) (rev s))"

text \<open>The test \<open>/\.png$/\<close> and \<open>.replace(/\.png$/, "")\<close>.\<close>

definition ends_with_png :: "string \<Rightarrow> bool" where
  "ends_with_png s = (4 \<le> length s \<and> drop (length s - 4) s = ''.png'')"

definition strip_png :: "string \<Rightarrow> string" where
  "strip_png s = (if ends_with_png s then take (length s - 4) s else s)"

text \<open>
  \<open>trimHeight = bound.bottom - bound.top\<close> and \<open>trimWidth = bound.right - bound.left\<close>,
  the size of the rectangle read back for the crop and of the image written to the file.
\<close>

definition trimWidth :: "bound \<Rightarrow> jsval" where
  "trimWidth b = js_sub (bound_right b) (bound_left b)"

definition trimHeight :: "bound \<Rightarrow> jsval" where
  "trimHeight b = js_sub (bound_bottom b) (bound_top b)"

text \<open>The object of the \<open>return\<close> statement.\<close>

definition result_of :: "canvas \<Rightarrow> string \<Rightarrow> bound \<Rightarrow> cropResult" where
  "result_of c filepath b =
     \<lparr>name = strip_png (last_segment filepath),
      fullName = last_segment filepath,
      path = filepath,
      left = bound_left b,
      top' = bound_top b,
      right = js_sub (Num (int (canvas_width c))) (bound_right b),
      bottom = js_sub (Num (int (canvas_height c))) (bound_bottom b),
      width = js_sub (bound_right b) (bound_left b),
      height = js_sub (bound_bottom b) (bound_top b),
      naturalWidth = Num (int (canvas_width c)),
      naturalHeight = Num (int (canvas_height c)),
      geometricBounds = [bound_left b, bound_top b, bound_right b, bound_bottom b]\<rparr>"

text \<open>
  \<open>trimCanvas\<close> in the order of the source: read the pixels back (a canvas without
  area cannot be read), scan, pad, clamp, read the crop rectangle, write the file,
  return the record.
\<close>

definition trimCanvas :: "env \<Rightarrow> canvas \<Rightarrow> string \<Rightarrow> jsval \<Rightarrow> error + cropResult" where
  "trimCanvas e c filepath padding =
     (if getImageData_throws (Num (int (canvas_width c))) (Num (int (canvas_height c)))
      then Inl IndexSizeError
      else
        (let b = cropBounds c padding in
         if getImageData_throws (trimWidth b) (trimHeight b) then Inl IndexSizeError
         else (case writeFileSync e filepath of
                 Some err \<Rightarrow> Inl err
               | None \<Rightarrow> Inr (result_of c filepath b))))"

section \<open>Promises, \<open>trimItem\<close> and \<open>trim\<close>\<close>

datatype 'a promise = Resolved 'a | Rejected error | Pending

text \<open>
  \<open>trimItem\<close> runs its \<open>try\<close> block inside the promise executor: an exception there
  rejects the promise. The rest runs in the \<open>onload\<close> callback, after the \<open>try\<close> block
  has been left: the promise resolves when \<open>trimCanvas\<close> returns, and stays pending
  when the callback is never called (no \<open>onerror\<close> handler is installed) or when
  \<open>trimCanvas\<close> throws.
\<close>

definition trimItem :: "env \<Rightarrow> string \<Rightarrow> jsval \<Rightarrow> cropResult promise" where
  "trimItem e targFile padding =
     (case source e targFile of
        Unreadable err \<Rightarrow> Rejected err
      | Undecoded \<Rightarrow> Pending
      | Painted c \<Rightarrow>
          (case trimCanvas e c targFile padding of
             Inl err \<Rightarrow> Pending
           | Inr result \<Rightarrow> Resolved result))"

text \<open>
  \<open>Promise.all\<close> keeps one slot per input promise and a count of the promises still to
  resolve. The promises settle in some order, given here as the list of their indices;
  a resolved promise fills its own slot, once, and the whole resolves with the slots when
  the count reaches zero; the first promise found rejected rejects the whole.
\<close>

fun all_settle :: "'a promise list \<Rightarrow> nat list \<Rightarrow> 'a option list \<Rightarrow> nat \<Rightarrow> 'a list promise" where
  "all_settle ps [] values remaining = Pending"
| "all_settle ps (k # ks) values remaining =
     (if k < length ps then
        (case ps ! k of
           Pending \<Rightarrow> all_settle ps ks values remaining
         | Rejected err \<Rightarrow> Rejected err
         | Resolved v \<Rightarrow>
             if values ! k \<noteq> None then all_settle ps ks values remaining
             else if remaining - 1 = 0 then Resolved (List.map_filter (\<lambda>slot. slot) (values[k := Some v]))
             else all_settle ps ks (values[k := Some v]) (remaining - 1))
      else all_settle ps ks values remaining)"

definition promise_all :: "'a promise list \<Rightarrow> nat list \<Rightarrow> 'a list promise" where
  "promise_all ps order =
     (if ps = [] then Resolved []
      else all_settle ps order (replicate (length ps) None) (length ps))"

text \<open>
  The argument of \<open>trim\<close>: a single path or an array of paths.
  \<open>if (!Array.isArray(list) || /string/i.test(typeof list)) list = [list]\<close>.
\<close>

datatype input = Single string | Many "string list"

fun as_list :: "input \<Rightarrow> string list" where
  "as_list (Single s) = [s]"
| "as_list (Many xs) = xs"

text \<open>
  \<open>padding = 0\<close> as the default of a missing argument, then \<open>padding = +padding\<close>.
  When the result is \<open>NaN\<close> the source prints a message with \<open>console.error\<close> and
  goes on; the message is not modelled.
\<close>

fun coerce_padding :: "jsval \<Rightarrow> jsval" where
  "coerce_padding Undefined = Num 0"
| "coerce_padding v = ofNumber (toNumber v)"

text \<open>
  The loop that replaces each folder of the list by the array of its children, awaiting
  \<open>readDir\<close> for one folder after the other. \<open>readDir\<close> rejects at once on a path
  that does not exist or is not a folder (the first rejection of a promise is the one that
  counts), rejects with the error of \<open>fs.readdir\<close>, and otherwise resolves with the
  children as \<open>`${targetPath}/${item}`\<close>. An entry that is not a folder stays a string;
  \<open>flat()\<close> then splices the arrays.
\<close>

definition readDir :: "env \<Rightarrow> string \<Rightarrow> error + string list" where
  "readDir e targetPath =
     (if \<not> exists e targetPath \<or> \<not> isFolder e targetPath
      then Inl (HostError ''Path is not a folder or does not exist'')
      else (case readdir e targetPath of
              Inl err \<Rightarrow> Inl err
            | Inr files \<Rightarrow> Inr (map (\<lambda>item. targetPath @ ''/'' @ item) files)))"

fun unfold_folders :: "env \<Rightarrow> string list \<Rightarrow> error + string list list" where
  "unfold_folders e [] = Inr []"
| "unfold_folders e (item # rest) =
     (if isFolder e item then
        (case readDir e item of
           Inl err \<Rightarrow> Inl err
         | Inr children \<Rightarrow>
             (case unfold_folders e rest of
                Inl err \<Rightarrow> Inl err
              | Inr others \<Rightarrow> Inr (children # others)))
      else
        (case unfold_folders e rest of
           Inl err \<Rightarrow> Inl err
         | Inr others \<Rightarrow> Inr ([item] # others)))"

text \<open>
  \<open>trim\<close>. The last argument is the order in which the promises of \<open>trimItem\<close> settle.
  \<open>if (!list.length) return list\<close> returns the list itself, which is empty.
\<close>

definition trim :: "env \<Rightarrow> input \<Rightarrow> jsval \<Rightarrow> nat list \<Rightarrow> cropResult list promise" where
  "trim e list padding order =
     (let padding = coerce_padding padding;
          list = filter (exists e) (as_list list)
      in case unfold_folders e list of
           Inl err \<Rightarrow> Rejected err
         | Inr unfolded \<Rightarrow>
             (let list = filter ends_with_png (concat unfolded)
              in if list = [] then Resolved []
                 else promise_all (map (\<lambda>item. trimItem e item padding) list) order))"

section \<open>Notions used in the statements\<close>

text \<open>
  The alpha sample of the pixel in column \<open>x\<close> and row \<open>y\<close>, and the set of the
  coordinates of the pixels of the canvas whose alpha sample is not 0.
\<close>

definition alpha_at :: "canvas \<Rightarrow> nat \<Rightarrow> nat \<Rightarrow> 8 word" where
  "alpha_at c x y = pixels_data c ! (4 * (y * canvas_width c + x) + 3)"

definition relevant :: "canvas \<Rightarrow> (nat \<times> nat) set" where
  "relevant c = {(x, y). x < canvas_width c \<and> y < canvas_height c \<and> alpha_at c x y \<noteq> 0}"

text \<open>
  The same pixels by their position \<open>k\<close> in the sample array (pixel \<open>k\<close> starts at
  index \<open>4 * k\<close>): its column, its row, the positions below \<open>n\<close> whose alpha is not 0,
  and the bounds that the scan loop holds after it has seen the positions of a set.
\<close>

definition col :: "canvas \<Rightarrow> nat \<Rightarrow> nat" where
  "col c k = k mod canvas_width c"

definition row :: "canvas \<Rightarrow> nat \<Rightarrow> nat" where
  "row c k = k div canvas_width c"

definition hits :: "canvas \<Rightarrow> nat \<Rightarrow> nat set" where
  "hits c n = {k. k < n \<and> pixels_data c ! (4 * k + 3) \<noteq> 0}"

definition summary :: "canvas \<Rightarrow> nat set \<Rightarrow> bound" where
  "summary c S =
     (if S = {} then initial_bound
      else \<lparr>bound_top = Num (int (Min (row c ` S))), bound_left = Num (int (Min (col c ` S))),
            bound_right = Num (int (Max (col c ` S))), bound_bottom = Num (int (Max (row c ` S)))\<rparr>)"

text \<open>
  A bound that is \<open>null\<close> or a number converts to a number; \<open>coord\<close> is that number.
\<close>

definition coord :: "jsval \<Rightarrow> int" where
  "coord v = (case toNumber v of Some n \<Rightarrow> n | None \<Rightarrow> 0)"

definition numeric :: "bound \<Rightarrow> bool" where
  "numeric b = (toNumber (bound_top b) \<noteq> None \<and> toNumber (bound_left b) \<noteq> None
                \<and> toNumber (bound_right b) \<noteq> None \<and> toNumber (bound_bottom b) \<noteq> None)"

text \<open>The slots of \<open>Promise.all\<close> that are still empty.\<close>

definition unfilled :: "'a option list \<Rightarrow> nat set" where
  "unfilled slots = {i. i < length slots \<and> slots ! i = None}"

section \<open>Concrete images and hosts\<close>

text \<open>
  A \<open>w\<close> by \<open>h\<close> canvas with a given alpha channel and black colour samples, and the
  image of the end-to-end example of the specification: 1000 by 1000 pixels, fully opaque
  on the square of side 100 at offset (50, 50), transparent elsewhere.
\<close>

definition canvas_of :: "nat \<Rightarrow> nat \<Rightarrow> (nat \<Rightarrow> nat \<Rightarrow> 8 word) \<Rightarrow> canvas" where
  "canvas_of w h alpha =
     \<lparr>canvas_width = w, canvas_height = h,
      pixels_data = concat (map (\<lambda>k. [0, 0, 0, alpha (k mod w) (k div w)]) [0..<w * h])\<rparr>"

definition square_image :: canvas where
  "square_image =
     canvas_of 1000 1000 (\<lambda>x y. if 50 \<le> x \<and> x < 150 \<and> 50 \<le> y \<and> y < 150 then 255 else 0)"

text \<open>
  Three 2 by 2 canvases: one pixel with a little alpha at column 1 of row 0, a fully
  transparent one, and a fully opaque one.
\<close>

definition dot22 :: canvas where
  "dot22 = \<lparr>canvas_width = 2, canvas_height = 2,
          pixels_data = [0,0,0,0, 0,0,0,9, 0,0,0,0, 0,0,0,0]\<rparr>"

definition blank22 :: canvas where
  "blank22 = \<lparr>canvas_width = 2, canvas_height = 2,
              pixels_data = [0,0,0,0, 0,0,0,0, 0,0,0,0, 0,0,0,0]\<rparr>"

definition full22 :: canvas where
  "full22 = \<lparr>canvas_width = 2, canvas_height = 2,
             pixels_data = [9,9,9,255, 9,9,9,255, 9,9,9,255, 9,9,9,255]\<rparr>"

text \<open>
  A host where every path exists and is a file, and every write succeeds; one where the
  file \<open>a.png\<close> cannot be read; one where \<open>a.png\<close> never fires \<open>onload\<close>.
\<close>

definition host_with :: "(string \<Rightarrow> source) \<Rightarrow> env" where
  "host_with src =
     \<lparr>exists = (\<lambda>p. True), isFolder = (\<lambda>p. False), readdir = (\<lambda>p. Inr []),
      source = src, writeFileSync = (\<lambda>p. None)\<rparr>"

definition failing_host :: env where
  "failing_host =
     host_with (\<lambda>p. if p = ''a.png'' then Unreadable (HostError ''EACCES'') else Painted full22)"

definition stalled_host :: env where
  "stalled_host = host_with (\<lambda>p. if p = ''a.png'' then Undecoded else Painted full22)"

section \<open>Double arithmetic\<close>

text \<open>
  A JavaScript number is an IEEE double. A finite double is represented by the rational
  number it denotes, and \<open>fl\<close> rounds a rational to the nearest double, ties to the even
  significand: the significand has 53 bits, and below \<open>2 ^ -1022\<close> the spacing stays
  \<open>2 ^ -1074\<close>. A literal such as \<open>0.1\<close> denotes \<open>fl (1 / 10)\<close>. A result of
  magnitude \<open>2 ^ 1024\<close> or more would be infinite; the sum or difference of a pixel
  coordinate and a finite double never gets there.
\<close>

definition pow2 :: "int \<Rightarrow> rat" where
  "pow2 k = (if 0 \<le> k then 2 ^ nat k else 1 / 2 ^ nat (- k))"

text \<open>The number of binary digits of a positive integer, and \<open>\<lfloor>log\<^sub>2 \<bar>q\<bar>\<rfloor>\<close> for \<open>q \<noteq> 0\<close>.\<close>

function bit_length :: "int \<Rightarrow> nat" where
  "bit_length n = (if n \<le> 0 then 0 else Suc (bit_length (n div 2)))"
  by pat_completeness auto
termination
  by (relation "measure nat") auto

declare bit_length.simps [simp del]

definition ilog2 :: "rat \<Rightarrow> int" where
  "ilog2 q =
     (let (n, d) = quotient_of q;
          k = int (bit_length \<bar>n\<bar>) - int (bit_length d)
      in if pow2 k \<le> \<bar>q\<bar> then k else k - 1)"

definition round_half_even :: "rat \<Rightarrow> int" where
  "round_half_even q =
     (let f = \<lfloor>q\<rfloor>; r = q - of_int f
      in if r < 1 / 2 then f else if 1 / 2 < r then f + 1 else if even f then f else f + 1)"

definition fl :: "rat \<Rightarrow> rat" where
  "fl q = (if q = 0 then 0
           else (let u = max (ilog2 q - 52) (- 1074)
                 in of_int (round_half_even (q / pow2 u)) * pow2 u))"

text \<open>
  The values, the operators and the helpers \<open>isBetween\<close> and \<open>clamp\<close> once more, with
  doubles for the numbers: \<open>+\<close> and \<open>-\<close> round their exact result.
\<close>

datatype dval = DNull | DUndefined | DNaN | DNum rat

fun toNumber_d :: "dval \<Rightarrow> rat option" where
  "toNumber_d DNull = Some 0"
| "toNumber_d DUndefined = None"
| "toNumber_d DNaN = None"
| "toNumber_d (DNum q) = Some q"

definition js_sub_d :: "dval \<Rightarrow> dval \<Rightarrow> dval" where
  "js_sub_d a b = (case (toNumber_d a, toNumber_d b) of
                     (Some x, Some y) \<Rightarrow> DNum (fl (x - y))
                   | _ \<Rightarrow> DNaN)"

definition js_add_d :: "dval \<Rightarrow> dval \<Rightarrow> dval" where
  "js_add_d a b = (case (toNumber_d a, toNumber_d b) of
                     (Some x, Some y) \<Rightarrow> DNum (fl (x + y))
                   | _ \<Rightarrow> DNaN)"

definition js_lt_d :: "dval \<Rightarrow> dval \<Rightarrow> bool" where
  "js_lt_d a b = (case (toNumber_d a, toNumber_d b) of
                    (Some x, Some y) \<Rightarrow> x < y
                  | _ \<Rightarrow> False)"

definition js_gt_d :: "dval \<Rightarrow> dval \<Rightarrow> bool" where
  "js_gt_d a b = js_lt_d b a"

definition js_le_d :: "dval \<Rightarrow> dval \<Rightarrow> bool" where
  "js_le_d a b = (case (toNumber_d a, toNumber_d b) of
                    (Some x, Some y) \<Rightarrow> x \<le> y
                  | _ \<Rightarrow> False)"

definition js_ge_d :: "dval \<Rightarrow> dval \<Rightarrow> bool" where
  "js_ge_d a b = js_le_d b a"

fun js_not_d :: "dval \<Rightarrow> bool" where
  "js_not_d DNull = True"
| "js_not_d DUndefined = True"
| "js_not_d DNaN = True"
| "js_not_d (DNum q) = (q = 0)"

definition not_strict_zero_d :: "dval \<Rightarrow> bool" where
  "not_strict_zero_d v = (v \<noteq> DNum 0)"

definition isBetween_d :: "dval \<Rightarrow> dval \<Rightarrow> dval \<Rightarrow> bool" where
  "isBetween_d v mn mx =
     (if (js_not_d mn \<and> not_strict_zero_d mn) \<or> (js_not_d mx \<and> not_strict_zero_d mx) \<or> False
      then False
      else js_ge_d v mn \<and> js_le_d v mx)"

definition clamp_d :: "dval \<Rightarrow> dval \<Rightarrow> dval \<Rightarrow> dval" where
  "clamp_d v mn mx =
     (if isBetween_d v mn mx then v
      else if js_lt_d v mn then mn
      else if js_gt_d v mx then mx
      else DUndefined)"

text \<open>The object \<open>bound\<close> with doubles.\<close>

record bound_d =
  top_d :: dval
  left_d :: dval
  right_d :: dval
  bottom_d :: dval

fun get_d :: "bound_d \<Rightarrow> key \<Rightarrow> dval" where
  "get_d b Top = top_d b"
| "get_d b Left = left_d b"
| "get_d b Right = right_d b"
| "get_d b Bottom = bottom_d b"

fun put_d :: "key \<Rightarrow> dval \<Rightarrow> bound_d \<Rightarrow> bound_d" where
  "put_d Top v b = b\<lparr>top_d := v\<rparr>"
| "put_d Left v b = b\<lparr>left_d := v\<rparr>"
| "put_d Right v b = b\<lparr>right_d := v\<rparr>"
| "put_d Bottom v b = b\<lparr>bottom_d := v\<rparr>"

text \<open>
  The scan only produces pixel coordinates, integers below \<open>2 ^ 31\<close>, which are doubles:
  its bounds are taken over as they are.
\<close>

fun of_jsval :: "jsval \<Rightarrow> dval" where
  "of_jsval Null = DNull"
| "of_jsval Undefined = DUndefined"
| "of_jsval NaN = DNaN"
| "of_jsval (Num n) = DNum (of_int n)"

definition scan_d :: "canvas \<Rightarrow> bound_d" where
  "scan_d c =
     \<lparr>top_d = of_jsval (bound_top (scan c)), left_d = of_jsval (bound_left (scan c)),
      right_d = of_jsval (bound_right (scan c)), bottom_d = of_jsval (bound_bottom (scan c))\<rparr>"

text \<open>The two \<open>forEach\<close> loops over the keys of \<open>bound\<close>, as above.\<close>

definition pad_key_d :: "dval \<Rightarrow> key \<Rightarrow> bound_d \<Rightarrow> bound_d" where
  "pad_key_d padding k b =
     put_d k (if is_left_or_top k then js_sub_d (get_d b k) padding
              else js_add_d (get_d b k) padding) b"

definition addPadding_d :: "dval \<Rightarrow> bound_d \<Rightarrow> bound_d" where
  "addPadding_d padding b = fold (pad_key_d padding) keys b"

definition clamp_key_d :: "canvas \<Rightarrow> key \<Rightarrow> bound_d \<Rightarrow> bound_d" where
  "clamp_key_d c k b =
     put_d k (clamp_d (get_d b k) (DNum 0)
                (if is_left_or_right k then DNum (of_nat (canvas_width c))
                 else DNum (of_nat (canvas_height c)))) b"

definition clampBounds_d :: "canvas \<Rightarrow> bound_d \<Rightarrow> bound_d" where
  "clampBounds_d c b = fold (clamp_key_d c) keys b"

definition cropBounds_d :: "canvas \<Rightarrow> dval \<Rightarrow> bound_d" where
  "cropBounds_d c padding = clampBounds_d c (addPadding_d padding (scan_d c))"

text \<open>
  \<open>getImageData\<close> converts its arguments to integers by truncation before it tests the
  size: it throws on a width or height that is \<open>NaN\<close> or of magnitude below 1.
\<close>

definition getImageData_throws_d :: "dval \<Rightarrow> dval \<Rightarrow> bool" where
  "getImageData_throws_d sw sh =
     ((case toNumber_d sw of None \<Rightarrow> True | Some x \<Rightarrow> \<bar>x\<bar> < 1)
      \<or> (case toNumber_d sh of None \<Rightarrow> True | Some y \<Rightarrow> \<bar>y\<bar> < 1))"

text \<open>The returned record and \<open>trimCanvas\<close>, as above.\<close>

record cropResult_d =
  name_d :: string
  fullName_d :: string
  path_d :: string
  res_left_d :: dval
  res_top_d :: dval
  res_right_d :: dval
  res_bottom_d :: dval
  width_d :: dval
  height_d :: dval
  naturalWidth_d :: dval
  naturalHeight_d :: dval
  geometricBounds_d :: "dval list"

definition result_of_d :: "canvas \<Rightarrow> string \<Rightarrow> bound_d \<Rightarrow> cropResult_d" where
  "result_of_d c filepath b =
     \<lparr>name_d = strip_png (last_segment filepath),
      fullName_d = last_segment filepath,
      path_d = filepath,
      res_left_d = left_d b,
      res_top_d = top_d b,
      res_right_d = js_sub_d (DNum (of_nat (canvas_width c))) (right_d b),
      res_bottom_d = js_sub_d (DNum (of_nat (canvas_height c))) (bottom_d b),
      width_d = js_sub_d (right_d b) (left_d b),
      height_d = js_sub_d (bottom_d b) (top_d b),
      naturalWidth_d = DNum (of_nat (canvas_width c)),
      naturalHeight_d = DNum (of_nat (canvas_height c)),
      geometricBounds_d = [left_d b, top_d b, right_d b, bottom_d b]\<rparr>"

definition trimCanvas_d :: "env \<Rightarrow> canvas \<Rightarrow> string \<Rightarrow> dval \<Rightarrow> error + cropResult_d" where
  "trimCanvas_d e c filepath padding =
     (if getImageData_throws_d (DNum (of_nat (canvas_width c))) (DNum (of_nat (canvas_height c)))
      then Inl IndexSizeError
      else
        (let b = cropBounds_d c padding in
         if getImageData_throws_d (js_sub_d (right_d b) (left_d b)) (js_sub_d (bottom_d b) (top_d b))
         then Inl IndexSizeError
         else (case writeFileSync e filepath of
                 Some err \<Rightarrow> Inl err
               | None \<Rightarrow> Inr (result_of_d c filepath b))))"

text \<open>A canvas of given dimensions without samples, to evaluate what depends on the dimensions only.\<close>

definition frame :: "nat \<Rightarrow> nat \<Rightarrow> canvas" where
  "frame w h = \<lparr>canvas_width = w, canvas_height = h, pixels_data = []\<rparr>"

section \<open>Basic facts about the value model\<close>

lemma isBetween_Num [simp]:
  "0 \<le> m \<Longrightarrow> isBetween (Num v) (Num 0) (Num m) = (0 \<le> v \<and> v \<le> m)"
  by (auto simp: isBetween_def not_strict_zero_def js_ge_def js_le_def)

lemma clamp_Num [simp]:
  "0 \<le> m \<Longrightarrow> clamp (Num v) (Num 0) (Num m) = Num (max 0 (min v m))"
  by (auto simp: clamp_def js_lt_def js_gt_def)

lemma js_sub_Num [simp]: "js_sub (Num a) (Num b) = Num (a - b)"
  by (simp add: js_sub_def)

lemma js_add_Num [simp]: "js_add (Num a) (Num b) = Num (a + b)"
  by (simp add: js_add_def)

lemma js_sub_Null_Num [simp]: "js_sub Null (Num b) = Num (- b)"
  by (simp add: js_sub_def)

lemma js_add_Null_Num [simp]: "js_add Null (Num b) = Num b"
  by (simp add: js_add_def)

lemma js_sub_NaN [simp]: "js_sub v NaN = NaN"
  by (simp add: js_sub_def split: option.splits)

lemma js_add_NaN [simp]: "js_add v NaN = NaN"
  by (simp add: js_add_def split: option.splits)

lemma js_lt_Num [simp]: "js_lt (Num a) (Num b) = (a < b)"
  by (simp add: js_lt_def)

lemma addPadding_eq:
  "addPadding p b =
     \<lparr>bound_top = js_sub (bound_top b) p, bound_left = js_sub (bound_left b) p,
      bound_right = js_add (bound_right b) p, bound_bottom = js_add (bound_bottom b) p\<rparr>"
  by (simp add: addPadding_def keys_def pad_key_def)

lemma clampBounds_eq:
  "clampBounds c b =
     \<lparr>bound_top = clamp (bound_top b) (Num 0) (Num (int (canvas_height c))),
      bound_left = clamp (bound_left b) (Num 0) (Num (int (canvas_width c))),
      bound_right = clamp (bound_right b) (Num 0) (Num (int (canvas_width c))),
      bound_bottom = clamp (bound_bottom b) (Num 0) (Num (int (canvas_height c)))\<rparr>"
  by (simp add: clampBounds_def keys_def clamp_key_def)

lemma clamp_NaN: "clamp NaN mn mx = Undefined"
  by (simp add: clamp_def isBetween_def js_lt_def js_gt_def js_ge_def js_le_def
      split: option.splits)

section \<open>The scan computes the four extrema\<close>

lemma toInt32_id: "0 \<le> n \<Longrightarrow> n < 2 ^ 31 \<Longrightarrow> toInt32 n = n"
  by (simp add: toInt32_def)

lemma finite_hits [simp]: "finite (hits c n)"
  by (simp add: hits_def)

lemma hits_Suc:
  "hits c (Suc k) = (if pixels_data c ! (4 * k + 3) \<noteq> 0 then insert k (hits c k) else hits c k)"
  by (auto simp: hits_def less_Suc_eq)

lemma hits_0 [simp]: "hits c 0 = {}"
  by (simp add: hits_def)

lemma Min_row_hits:
  assumes "hits c k \<noteq> {}"
  shows "Min (row c ` hits c k) \<le> row c k"
proof -
  from assms obtain j where j: "j \<in> hits c k" by blast
  then have "j < k" by (simp add: hits_def)
  then have "row c j \<le> row c k" by (simp add: row_def div_le_mono)
  moreover have "Min (row c ` hits c k) \<le> row c j" using j by simp
  ultimately show ?thesis by linarith
qed

lemma scan_step_summary:
  assumes w: "0 < canvas_width c" and len: "wf_canvas c"
    and k: "k < canvas_width c * canvas_height c" and h: "canvas_height c < 2 ^ 31"
  shows "scan_step c (4 * k) (summary c (hits c k)) = summary c (hits c (Suc k))"
proof -
  have a: "alpha_nonzero c (4 * k) = (pixels_data c ! (4 * k + 3) \<noteq> 0)"
    using k len by (simp add: alpha_nonzero_def wf_canvas_def)
  have x: "pixel_x c (4 * k) = Num (int (col c k))"
    using w by (simp add: pixel_x_def col_def)
  have "row c k < canvas_height c"
    using k w by (simp add: row_def less_mult_imp_div_less mult.commute)
  then have "int (row c k) < 2 ^ 31" using h by simp
  then have y: "pixel_y c (4 * k) = Num (int (row c k))"
    using w by (simp add: pixel_y_def row_def toInt32_id)
  show ?thesis
  proof (cases "pixels_data c ! (4 * k + 3) \<noteq> 0")
    case False
    then show ?thesis by (simp add: scan_step_def a hits_Suc)
  next
    case hit: True
    show ?thesis
    proof (cases "hits c k = {}")
      case True
      then show ?thesis
        using hit by (simp add: scan_step_def a x y hits_Suc summary_def initial_bound_def Let_def)
    next
      case False
      define S where "S = hits c k"
      have fin: "finite (row c ` S)" "finite (col c ` S)" and ne: "row c ` S \<noteq> {}" "col c ` S \<noteq> {}"
        using False by (simp_all add: S_def)
      define mR where "mR = Min (row c ` S)"
      define mC where "mC = Min (col c ` S)"
      define MR where "MR = Max (row c ` S)"
      define MC where "MC = Max (col c ` S)"
      have old: "summary c (hits c k) =
          \<lparr>bound_top = Num (int mR), bound_left = Num (int mC),
           bound_right = Num (int MC), bound_bottom = Num (int MR)\<rparr>"
        using False by (simp add: summary_def S_def mR_def mC_def MR_def MC_def)
      have "mR \<le> row c k"
        using Min_row_hits [OF False] by (simp add: mR_def S_def)
      then have top: "Min (row c ` insert k S) = mR"
        using fin ne by (simp add: mR_def)
      have left: "Min (col c ` insert k S) = min (col c k) mC"
        using fin ne by (simp add: mC_def)
      have right: "Max (col c ` insert k S) = max MC (col c k)"
        using fin ne by (simp add: MC_def max.commute)
      have bottom: "Max (row c ` insert k S) = max MR (row c k)"
        using fin ne by (simp add: MR_def max.commute)
      have new: "summary c (hits c (Suc k)) =
          \<lparr>bound_top = Num (int mR), bound_left = Num (int (min (col c k) mC)),
           bound_right = Num (int (max MC (col c k))), bound_bottom = Num (int (max MR (row c k)))\<rparr>"
        using hit by (simp add: hits_Suc summary_def S_def [symmetric] top left right bottom
            del: image_insert)
      show ?thesis
        unfolding old new using hit
        by (simp add: scan_step_def a x y Let_def min_def max_def)
    qed
  qed
qed

lemma scan_loop_summary:
  assumes w: "0 < canvas_width c" and len: "wf_canvas c" and h: "canvas_height c < 2 ^ 31"
  shows "k \<le> canvas_width c * canvas_height c \<Longrightarrow>
         scan_loop c (4 * k) (summary c (hits c k))
           = summary c (hits c (canvas_width c * canvas_height c))"
proof (induction "canvas_width c * canvas_height c - k" arbitrary: k)
  case 0
  then have "k = canvas_width c * canvas_height c" by simp
  then show ?case using len by (simp add: scan_loop.simps wf_canvas_def)
next
  case (Suc d)
  then have k: "k < canvas_width c * canvas_height c" by simp
  then have "4 * k < length (pixels_data c)" using len by (simp add: wf_canvas_def)
  then have "scan_loop c (4 * k) (summary c (hits c k))
      = scan_loop c (4 * Suc k) (scan_step c (4 * k) (summary c (hits c k)))"
    by (subst scan_loop.simps) (simp add: add.commute)
  also have "\<dots> = scan_loop c (4 * Suc k) (summary c (hits c (Suc k)))"
    by (simp only: scan_step_summary [OF w len k h])
  also have "\<dots> = summary c (hits c (canvas_width c * canvas_height c))"
    using Suc k by (intro Suc.hyps(1)) simp_all
  finally show ?case .
qed

lemma scan_summary:
  assumes len: "wf_canvas c" and h: "canvas_height c < 2 ^ 31"
  shows "scan c = summary c (hits c (canvas_width c * canvas_height c))"
proof (cases "canvas_width c = 0")
  case True
  then show ?thesis
    using len by (simp add: scan_def scan_loop.simps wf_canvas_def summary_def)
next
  case False
  then have w: "0 < canvas_width c" by simp
  have "scan_loop c (4 * 0) (summary c (hits c 0))
          = summary c (hits c (canvas_width c * canvas_height c))"
    by (rule scan_loop_summary [OF w len h]) simp
  then show ?thesis by (simp add: scan_def summary_def)
qed

lemma finite_relevant [simp]: "finite (relevant c)"
proof -
  have "relevant c \<subseteq> {..<canvas_width c} \<times> {..<canvas_height c}"
    by (auto simp: relevant_def)
  then show ?thesis by (rule finite_subset) simp
qed

lemma hits_relevant:
  "(\<lambda>k. (col c k, row c k)) ` hits c (canvas_width c * canvas_height c) = relevant c"
proof (cases "canvas_width c = 0")
  case True
  then show ?thesis by (simp add: relevant_def)
next
  case False
  then have w: "0 < canvas_width c" by simp
  show ?thesis
  proof (intro equalityI subsetI)
    fix p assume "p \<in> (\<lambda>k. (col c k, row c k)) ` hits c (canvas_width c * canvas_height c)"
    then obtain k where k: "k < canvas_width c * canvas_height c"
      "pixels_data c ! (4 * k + 3) \<noteq> 0" and p: "p = (col c k, row c k)"
      by (auto simp: hits_def)
    have "row c k < canvas_height c"
      using k(1) w by (simp add: row_def less_mult_imp_div_less mult.commute)
    moreover have "col c k < canvas_width c" using w by (simp add: col_def)
    moreover have eq: "row c k * canvas_width c + col c k = k" by (simp add: row_def col_def)
    have "alpha_at c (col c k) (row c k) = pixels_data c ! (4 * k + 3)"
      unfolding alpha_at_def eq ..
    ultimately show "p \<in> relevant c"
      using k(2) p by (simp add: relevant_def)
  next
    fix p assume "p \<in> relevant c"
    then obtain x y where p: "p = (x, y)" and x: "x < canvas_width c" and y: "y < canvas_height c"
      and a: "alpha_at c x y \<noteq> 0"
      by (auto simp: relevant_def)
    define k where "k = y * canvas_width c + x"
    have "k < canvas_width c * canvas_height c"
    proof -
      have "k < y * canvas_width c + canvas_width c" using x by (simp add: k_def)
      also have "\<dots> = Suc y * canvas_width c" by simp
      also have "\<dots> \<le> canvas_height c * canvas_width c"
        using y by (intro mult_le_mono1) simp
      finally show ?thesis by (simp add: mult.commute)
    qed
    moreover have "col c k = x" "row c k = y" using x by (simp_all add: col_def row_def k_def)
    moreover have "pixels_data c ! (4 * k + 3) \<noteq> 0" using a by (simp add: alpha_at_def k_def)
    ultimately have "k \<in> hits c (canvas_width c * canvas_height c)" "p = (col c k, row c k)"
      using p by (simp_all add: hits_def)
    then show "p \<in> (\<lambda>k. (col c k, row c k)) ` hits c (canvas_width c * canvas_height c)"
      by blast
  qed
qed

lemma col_hits: "col c ` hits c (canvas_width c * canvas_height c) = fst ` relevant c"
  by (simp add: hits_relevant [symmetric] image_image)

lemma row_hits: "row c ` hits c (canvas_width c * canvas_height c) = snd ` relevant c"
  by (simp add: hits_relevant [symmetric] image_image)

lemma hits_empty_iff: "hits c (canvas_width c * canvas_height c) = {} \<longleftrightarrow> relevant c = {}"
  using hits_relevant [of c] by auto

lemma scan_relevant:
  assumes "wf_canvas c" and "canvas_height c < 2 ^ 31" and "relevant c \<noteq> {}"
  shows "scan c =
     \<lparr>bound_top = Num (int (Min (snd ` relevant c))),
      bound_left = Num (int (Min (fst ` relevant c))),
      bound_right = Num (int (Max (fst ` relevant c))),
      bound_bottom = Num (int (Max (snd ` relevant c)))\<rparr>"
  using assms by (simp add: scan_summary summary_def hits_empty_iff col_hits row_hits)

lemma relevant_bounds:
  assumes "relevant c \<noteq> {}"
  shows "Min (fst ` relevant c) \<le> Max (fst ` relevant c)"
    and "Max (fst ` relevant c) < canvas_width c"
    and "Min (snd ` relevant c) \<le> Max (snd ` relevant c)"
    and "Max (snd ` relevant c) < canvas_height c"
proof -
  have fin: "finite (fst ` relevant c)" "finite (snd ` relevant c)" by simp_all
  have ne: "fst ` relevant c \<noteq> {}" "snd ` relevant c \<noteq> {}" using assms by simp_all
  have "Max (fst ` relevant c) \<in> fst ` relevant c" using fin(1) ne(1) by (rule Max_in)
  then show "Min (fst ` relevant c) \<le> Max (fst ` relevant c)"
    using fin(1) by (rule Min_le [rotated])
  have "Max (snd ` relevant c) \<in> snd ` relevant c" using fin(2) ne(2) by (rule Max_in)
  then show "Min (snd ` relevant c) \<le> Max (snd ` relevant c)"
    using fin(2) by (rule Min_le [rotated])
  have "Max (fst ` relevant c) \<in> fst ` relevant c" using fin(1) ne(1) by (rule Max_in)
  then show "Max (fst ` relevant c) < canvas_width c" by (auto simp: relevant_def)
  have "Max (snd ` relevant c) \<in> snd ` relevant c" using fin(2) ne(2) by (rule Max_in)
  then show "Max (snd ` relevant c) < canvas_height c" by (auto simp: relevant_def)
qed

text \<open>
  Claim C5. On a canvas with at least one pixel whose alpha sample is not 0, the scan
  returns four independent extrema over those pixels: top is the least row, bottom the
  greatest row, left the least column and right the greatest column; and they satisfy
  \<open>0 \<le> left \<le> right < width\<close> and \<open>0 \<le> top \<le> bottom < height\<close>. The height is
  below \<open>2 ^ 31\<close>, as every height that \<open>getPngDimensions\<close> reads with \<open>getInt32\<close>.
\<close>

theorem scan_extrema:
  assumes "wf_canvas c" and "canvas_height c < 2 ^ 31" and "relevant c \<noteq> {}"
  shows "scan c =
     \<lparr>bound_top = Num (int (Min (snd ` relevant c))),
      bound_left = Num (int (Min (fst ` relevant c))),
      bound_right = Num (int (Max (fst ` relevant c))),
      bound_bottom = Num (int (Max (snd ` relevant c)))\<rparr>
   \<and> Min (fst ` relevant c) \<le> Max (fst ` relevant c) \<and> Max (fst ` relevant c) < canvas_width c
   \<and> Min (snd ` relevant c) \<le> Max (snd ` relevant c) \<and> Max (snd ` relevant c) < canvas_height c"
  using scan_relevant [OF assms] relevant_bounds [OF assms(3)] by simp

text \<open>The canvas with one pixel at column 1 of row 0: all four extrema are that pixel.\<close>

lemma relevant_dot22: "relevant dot22 = {(1, 0)}"
proof -
  show ?thesis
    by (auto simp: relevant_def alpha_at_def dot22_def dest!: less_2_cases)
qed

theorem scan_extrema_witness:
  "wf_canvas dot22 \<and> canvas_height dot22 < 2 ^ 31 \<and> relevant dot22 \<noteq> {}
   \<and> scan dot22 = \<lparr>bound_top = Num 0, bound_left = Num 1, bound_right = Num 1, bound_bottom = Num 0\<rparr>"
proof -
  have h: "wf_canvas dot22" "canvas_height dot22 < 2 ^ 31" "relevant dot22 \<noteq> {}"
    by (simp_all add: relevant_dot22) (simp_all add: wf_canvas_def dot22_def)
  show ?thesis using h scan_extrema [OF h] by (simp add: relevant_dot22)
qed

section \<open>The scan of a transparent canvas\<close>

lemma scan_loop_transparent:
  assumes "wf_canvas c" and "hits c (canvas_width c * canvas_height c) = {}"
  shows "k \<le> canvas_width c * canvas_height c \<Longrightarrow> scan_loop c (4 * k) b = b"
proof (induction "canvas_width c * canvas_height c - k" arbitrary: k)
  case 0
  then have "\<not> 4 * k < length (pixels_data c)" using assms(1) by (simp add: wf_canvas_def)
  then show ?case by (subst scan_loop.simps) simp
next
  case (Suc d)
  then have k: "k < canvas_width c * canvas_height c" by simp
  then have lt: "4 * k + 3 < length (pixels_data c)" using assms(1) by (simp add: wf_canvas_def)
  have "k \<notin> hits c (canvas_width c * canvas_height c)" using assms(2) by simp
  then have "pixels_data c ! (4 * k + 3) = 0" using k by (simp add: hits_def)
  then have "scan_step c (4 * k) b = b" using lt by (simp add: scan_step_def alpha_nonzero_def)
  moreover have "scan_loop c (4 * k) b = scan_loop c (4 * Suc k) (scan_step c (4 * k) b)"
    using lt by (subst scan_loop.simps) (simp add: add.commute)
  moreover have "scan_loop c (4 * Suc k) b = b"
    using Suc k by (intro Suc.hyps(1)) simp_all
  ultimately show ?case by simp
qed

lemma scan_transparent:
  assumes "wf_canvas c" and "relevant c = {}"
  shows "scan c = initial_bound"
proof -
  have "hits c (canvas_width c * canvas_height c) = {}"
    using assms(2) by (simp add: hits_empty_iff)
  from scan_loop_transparent [OF assms(1) this, of 0 initial_bound]
  show ?thesis by (simp add: scan_def)
qed

section \<open>The bounds after padding and clamping\<close>

lemma numeric_initial [simp]: "numeric initial_bound"
  by (simp add: numeric_def initial_bound_def)

lemma numeric_scan_step:
  "0 < canvas_width c \<Longrightarrow> numeric b \<Longrightarrow> numeric (scan_step c i b)"
  by (simp add: numeric_def scan_step_def pixel_x_def pixel_y_def Let_def)

lemma numeric_scan_loop:
  "0 < canvas_width c \<Longrightarrow> numeric b \<Longrightarrow> numeric (scan_loop c i b)"
proof (induction c i b rule: scan_loop.induct)
  case (1 c i b)
  show ?case
  proof (cases "i < length (pixels_data c)")
    case True
    then show ?thesis
      using 1 by (subst scan_loop.simps) (simp add: numeric_scan_step)
  next
    case False
    then show ?thesis using 1 by (subst scan_loop.simps) simp
  qed
qed

lemma numeric_scan: "0 < canvas_width c \<or> wf_canvas c \<Longrightarrow> numeric (scan c)"
proof (cases "0 < canvas_width c")
  case True
  then show ?thesis by (simp add: scan_def numeric_scan_loop)
next
  case False
  assume "0 < canvas_width c \<or> wf_canvas c"
  then have "pixels_data c = []" using False by (simp add: wf_canvas_def)
  then show ?thesis by (simp add: scan_def scan_loop.simps)
qed

lemma js_sub_coord: "toNumber v \<noteq> None \<Longrightarrow> js_sub v (Num p) = Num (coord v - p)"
  by (auto simp: js_sub_def coord_def)

lemma js_add_coord: "toNumber v \<noteq> None \<Longrightarrow> js_add v (Num p) = Num (coord v + p)"
  by (auto simp: js_add_def coord_def)

lemma cropBounds_Num:
  assumes "numeric (scan c)"
  shows "cropBounds c (Num p) =
     \<lparr>bound_top = Num (max 0 (min (coord (bound_top (scan c)) - p) (int (canvas_height c)))),
      bound_left = Num (max 0 (min (coord (bound_left (scan c)) - p) (int (canvas_width c)))),
      bound_right = Num (max 0 (min (coord (bound_right (scan c)) + p) (int (canvas_width c)))),
      bound_bottom = Num (max 0 (min (coord (bound_bottom (scan c)) + p) (int (canvas_height c))))\<rparr>"
  using assms
  by (simp add: cropBounds_def addPadding_eq clampBounds_eq numeric_def js_sub_coord js_add_coord)

lemma cropBounds_toNumber: "toNumber p = Some n \<Longrightarrow> cropBounds c p = cropBounds c (Num n)"
  by (simp add: cropBounds_def addPadding_eq js_sub_def js_add_def)

lemma js_sub_None: "toNumber p = None \<Longrightarrow> js_sub v p = NaN"
  by (simp add: js_sub_def split: option.splits)

lemma js_add_None: "toNumber p = None \<Longrightarrow> js_add v p = NaN"
  by (simp add: js_add_def split: option.splits)

lemma cropBounds_None:
  "toNumber p = None \<Longrightarrow> cropBounds c p =
     \<lparr>bound_top = Undefined, bound_left = Undefined,
      bound_right = Undefined, bound_bottom = Undefined\<rparr>"
  by (simp add: cropBounds_def addPadding_eq clampBounds_eq js_sub_None js_add_None clamp_NaN)

lemma cropBounds_transparent:
  assumes "wf_canvas c" and "relevant c = {}" and "0 \<le> p"
  shows "cropBounds c (Num p) =
     \<lparr>bound_top = Num 0, bound_left = Num 0,
      bound_right = Num (min p (int (canvas_width c))),
      bound_bottom = Num (min p (int (canvas_height c)))\<rparr>"
  using assms(3)
  by (simp add: cropBounds_def scan_transparent [OF assms(1,2)] initial_bound_def
      addPadding_eq clampBounds_eq)

text \<open>
  Claim C6. On a non-empty bounding box the padding is subtracted from top and left and
  added to right and bottom, and each result is clamped on its own, left and right into
  \<open>[0, width]\<close>, top and bottom into \<open>[0, height]\<close>; a padding of at least the width
  and the height gives exactly the full canvas \<open>left = 0, top = 0, right = width,
  bottom = height\<close>, and no coordinate is negative or out of bounds.
\<close>

theorem padding_clamp:
  assumes "0 \<le> l" and "l \<le> r" and "r < int (canvas_width c)"
    and "0 \<le> t" and "t \<le> b" and "b < int (canvas_height c)"
  shows "clampBounds c (addPadding (Num p)
            \<lparr>bound_top = Num t, bound_left = Num l, bound_right = Num r, bound_bottom = Num b\<rparr>) =
           \<lparr>bound_top = Num (max 0 (min (t - p) (int (canvas_height c)))),
            bound_left = Num (max 0 (min (l - p) (int (canvas_width c)))),
            bound_right = Num (max 0 (min (r + p) (int (canvas_width c)))),
            bound_bottom = Num (max 0 (min (b + p) (int (canvas_height c))))\<rparr>
     \<and> 0 \<le> max 0 (min (t - p) (int (canvas_height c)))
     \<and> max 0 (min (t - p) (int (canvas_height c))) \<le> int (canvas_height c)
     \<and> 0 \<le> max 0 (min (l - p) (int (canvas_width c)))
     \<and> max 0 (min (l - p) (int (canvas_width c))) \<le> int (canvas_width c)
     \<and> 0 \<le> max 0 (min (r + p) (int (canvas_width c)))
     \<and> max 0 (min (r + p) (int (canvas_width c))) \<le> int (canvas_width c)
     \<and> 0 \<le> max 0 (min (b + p) (int (canvas_height c)))
     \<and> max 0 (min (b + p) (int (canvas_height c))) \<le> int (canvas_height c)
     \<and> (int (canvas_width c) \<le> p \<and> int (canvas_height c) \<le> p \<longrightarrow>
          clampBounds c (addPadding (Num p)
            \<lparr>bound_top = Num t, bound_left = Num l, bound_right = Num r, bound_bottom = Num b\<rparr>) =
           \<lparr>bound_top = Num 0, bound_left = Num 0,
            bound_right = Num (int (canvas_width c)), bound_bottom = Num (int (canvas_height c))\<rparr>)"
  using assms by (simp add: addPadding_eq clampBounds_eq)

text \<open>On the 2 by 2 canvas: padding 1 around the box of all pixels, padding 5 around one pixel.\<close>

theorem padding_clamp_witness:
  "(0::int) \<le> 0 \<and> (0::int) \<le> 1 \<and> 1 < int (canvas_width full22)
   \<and> 1 < int (canvas_height full22)
   \<and> clampBounds full22 (addPadding (Num 1)
        \<lparr>bound_top = Num 0, bound_left = Num 0, bound_right = Num 1, bound_bottom = Num 1\<rparr>) =
       \<lparr>bound_top = Num 0, bound_left = Num 0, bound_right = Num 2, bound_bottom = Num 2\<rparr>
   \<and> clampBounds full22 (addPadding (Num 5)
        \<lparr>bound_top = Num 1, bound_left = Num 1, bound_right = Num 1, bound_bottom = Num 1\<rparr>) =
       \<lparr>bound_top = Num 0, bound_left = Num 0, bound_right = Num 2, bound_bottom = Num 2\<rparr>"
proof -
  have dims: "canvas_width full22 = 2" "canvas_height full22 = 2"
    by (simp_all add: full22_def)
  have h: "(0::int) \<le> 0" "(0::int) \<le> 1" "1 < int (canvas_width full22)"
    "(0::int) \<le> 0" "(0::int) \<le> 1" "1 < int (canvas_height full22)"
    by (simp_all add: dims)
  have k: "(0::int) \<le> 1" "(1::int) \<le> 1" "1 < int (canvas_width full22)"
    "(0::int) \<le> 1" "(1::int) \<le> 1" "1 < int (canvas_height full22)"
    by (simp_all add: dims)
  show ?thesis
    using padding_clamp [OF h, of 1] padding_clamp [OF k, of 5] by (simp add: dims)
qed

text \<open>
  Claim C7. For paddings \<open>p2 > p1 \<ge> 0\<close> the padded and clamped crop box of \<open>p2\<close>
  contains the one of \<open>p1\<close>: its left and top are not greater, its right and bottom
  not smaller.
\<close>

theorem padding_monotone:
  assumes "wf_canvas c" and "0 \<le> p1" and "p1 < p2"
  shows "\<exists>t1 l1 r1 b1 t2 l2 r2 b2.
           cropBounds c (Num p1) =
             \<lparr>bound_top = Num t1, bound_left = Num l1, bound_right = Num r1, bound_bottom = Num b1\<rparr>
         \<and> cropBounds c (Num p2) =
             \<lparr>bound_top = Num t2, bound_left = Num l2, bound_right = Num r2, bound_bottom = Num b2\<rparr>
         \<and> l2 \<le> l1 \<and> t2 \<le> t1 \<and> r1 \<le> r2 \<and> b1 \<le> b2"
proof -
  have n: "numeric (scan c)" using assms(1) by (simp add: numeric_scan)
  show ?thesis
    unfolding cropBounds_Num [OF n] using assms(3) by (simp add: min_def max_def)
qed

text \<open>The one-pixel canvas with paddings 0 and 1.\<close>

theorem padding_monotone_witness:
  "wf_canvas dot22 \<and> (0::int) \<le> 0 \<and> (0::int) < 1
   \<and> cropBounds dot22 (Num 0) =
       \<lparr>bound_top = Num 0, bound_left = Num 1, bound_right = Num 1, bound_bottom = Num 0\<rparr>
   \<and> cropBounds dot22 (Num 1) =
       \<lparr>bound_top = Num 0, bound_left = Num 0, bound_right = Num 2, bound_bottom = Num 1\<rparr>
   \<and> (\<exists>t1 l1 r1 b1 t2 l2 r2 b2.
           cropBounds dot22 (Num 0) =
             \<lparr>bound_top = Num t1, bound_left = Num l1, bound_right = Num r1, bound_bottom = Num b1\<rparr>
         \<and> cropBounds dot22 (Num 1) =
             \<lparr>bound_top = Num t2, bound_left = Num l2, bound_right = Num r2, bound_bottom = Num b2\<rparr>
         \<and> l2 \<le> l1 \<and> t2 \<le> t1 \<and> r1 \<le> r2 \<and> b1 \<le> b2)"
proof -
  have h: "wf_canvas dot22" "(0::int) \<le> 0" "(0::int) < 1"
    by (simp_all add: wf_canvas_def dot22_def)
  have v: "cropBounds dot22 (Num 0) =
       \<lparr>bound_top = Num 0, bound_left = Num 1, bound_right = Num 1, bound_bottom = Num 0\<rparr>"
    "cropBounds dot22 (Num 1) =
       \<lparr>bound_top = Num 0, bound_left = Num 0, bound_right = Num 2, bound_bottom = Num 1\<rparr>"
    by code_simp+
  from h v padding_monotone [OF h] show ?thesis
    by (intro conjI) assumption+
qed

section \<open>\<open>clamp\<close> on \<open>NaN\<close>\<close>

text \<open>
  Claim C9. \<open>clamp\<close> is not total on numbers: on \<open>NaN\<close>, whatever the limits, the range
  test fails and neither comparison holds, so the call returns \<open>undefined\<close>. A padding
  that coerces to \<open>NaN\<close> makes every padded bound \<open>NaN\<close>, and the four bounds used for
  the crop are then \<open>undefined\<close>, for every canvas.
\<close>

theorem clamp_NaN_undefined:
  "\<not> isBetween NaN mn mx \<and> \<not> js_lt NaN mn \<and> \<not> js_gt NaN mx
   \<and> clamp NaN mn mx = Undefined
   \<and> addPadding (coerce_padding NaN) (scan c) =
       \<lparr>bound_top = NaN, bound_left = NaN, bound_right = NaN, bound_bottom = NaN\<rparr>
   \<and> cropBounds c (coerce_padding NaN) =
       \<lparr>bound_top = Undefined, bound_left = Undefined,
        bound_right = Undefined, bound_bottom = Undefined\<rparr>"
  by (simp add: cropBounds_def addPadding_eq clampBounds_eq clamp_NaN ofNumber_def
      isBetween_def js_lt_def js_gt_def js_ge_def js_le_def split: option.splits)

section \<open>The record returned by \<open>trimCanvas\<close>\<close>

lemma trimCanvas_Inr:
  assumes "trimCanvas e c filepath padding = Inr r"
  shows "0 < canvas_width c" and "0 < canvas_height c"
    and "\<not> getImageData_throws (trimWidth (cropBounds c padding)) (trimHeight (cropBounds c padding))"
    and "writeFileSync e filepath = None"
    and "r = result_of c filepath (cropBounds c padding)"
proof -
  have a: "\<not> getImageData_throws (Num (int (canvas_width c))) (Num (int (canvas_height c)))"
    using assms unfolding trimCanvas_def by (simp split: if_splits)
  then show "0 < canvas_width c" "0 < canvas_height c"
    by (simp_all add: getImageData_throws_def)
  have b: "(let b = cropBounds c padding in
         if getImageData_throws (trimWidth b) (trimHeight b) then Inl IndexSizeError
         else (case writeFileSync e filepath of
                 Some err \<Rightarrow> Inl err
               | None \<Rightarrow> Inr (result_of c filepath b))) = Inr r"
    using assms a unfolding trimCanvas_def by simp
  then show c: "\<not> getImageData_throws (trimWidth (cropBounds c padding)) (trimHeight (cropBounds c padding))"
    by (simp add: Let_def split: if_splits)
  then have d: "(case writeFileSync e filepath of
                 Some err \<Rightarrow> Inl err
               | None \<Rightarrow> Inr (result_of c filepath (cropBounds c padding))) = Inr r"
    using b by (simp add: Let_def)
  then show "writeFileSync e filepath = None"
    by (cases "writeFileSync e filepath") simp_all
  then show "r = result_of c filepath (cropBounds c padding)"
    using d by simp
qed

lemma trimCanvas_Inr_numeric:
  assumes "trimCanvas e c filepath padding = Inr r"
  shows "\<exists>p t l rt b. toNumber padding = Some p
           \<and> cropBounds c padding =
               \<lparr>bound_top = Num t, bound_left = Num l, bound_right = Num rt, bound_bottom = Num b\<rparr>
           \<and> r = result_of c filepath (cropBounds c padding)"
proof -
  note facts = trimCanvas_Inr [OF assms]
  have "toNumber padding \<noteq> None"
  proof
    assume "toNumber padding = None"
    then show False
      using facts(3) by (simp add: cropBounds_None trimWidth_def getImageData_throws_def js_sub_def)
  qed
  then obtain p where p: "toNumber padding = Some p" by auto
  have n: "numeric (scan c)" using facts(1) by (simp add: numeric_scan)
  have "\<exists>t l rt b. cropBounds c (Num p) =
      \<lparr>bound_top = Num t, bound_left = Num l, bound_right = Num rt, bound_bottom = Num b\<rparr>"
    unfolding cropBounds_Num [OF n] by simp
  then show ?thesis
    using p facts(5) cropBounds_toNumber [OF p, of c] by simp
qed

lemma trimCanvas_full22:
  "trimCanvas (host_with src) full22 ''full.png'' (Num 0) =
     Inr \<lparr>name = ''full'', fullName = ''full.png'', path = ''full.png'',
          left = Num 0, top' = Num 0, right = Num 1, bottom = Num 1,
          width = Num 1, height = Num 1, naturalWidth = Num 2, naturalHeight = Num 2,
          geometricBounds = [Num 0, Num 0, Num 1, Num 1]\<rparr>"
  by code_simp

text \<open>
  Claim C10, as the code has it. With a padding that is an integer, every record that
  \<open>trimCanvas\<close> returns satisfies \<open>left + width + right = naturalWidth\<close> and
  \<open>top + height + bottom = naturalHeight\<close>, and its \<open>geometricBounds\<close> are
  \<open>[left, top, naturalWidth - right, naturalHeight - bottom]\<close>. (With a padding that
  is \<open>NaN\<close> no record is returned: the crop rectangle has no numeric size.)
\<close>

theorem result_consistent:
  assumes "trimCanvas e c filepath padding = Inr r"
  shows "js_add (js_add (left r) (width r)) (right r) = naturalWidth r
       \<and> js_add (js_add (top' r) (height r)) (bottom r) = naturalHeight r
       \<and> geometricBounds r =
           [left r, top' r, js_sub (naturalWidth r) (right r), js_sub (naturalHeight r) (bottom r)]"
proof -
  from trimCanvas_Inr_numeric [OF assms] obtain p t l rt b where
    b: "cropBounds c padding =
         \<lparr>bound_top = Num t, bound_left = Num l, bound_right = Num rt, bound_bottom = Num b\<rparr>"
    and r: "r = result_of c filepath (cropBounds c padding)"
    by blast
  show ?thesis unfolding r b by (simp add: result_of_def)
qed

text \<open>The fully opaque 2 by 2 canvas with padding 0.\<close>

theorem result_consistent_witness:
  "trimCanvas (host_with (\<lambda>p. Painted full22)) full22 ''full.png'' (Num 0) =
     Inr \<lparr>name = ''full'', fullName = ''full.png'', path = ''full.png'',
          left = Num 0, top' = Num 0, right = Num 1, bottom = Num 1,
          width = Num 1, height = Num 1, naturalWidth = Num 2, naturalHeight = Num 2,
          geometricBounds = [Num 0, Num 0, Num 1, Num 1]\<rparr>
   \<and> js_add (js_add (Num 0) (Num 1)) (Num 1) = Num 2
   \<and> [Num 0, Num 0, Num 1, Num 1] = [Num 0, Num 0, js_sub (Num 2) (Num 1), js_sub (Num 2) (Num 1)]"
  using trimCanvas_full22 [of "\<lambda>p. Painted full22"]
    result_consistent [OF trimCanvas_full22 [of "\<lambda>p. Painted full22"]]
  by simp

section \<open>The examples of the specification\<close>

lemma length_concat_quads:
  "length (concat (map (\<lambda>k. [f0 k, f1 k, f2 k, f3 k]) [0..<n])) = 4 * n"
  by (induction n) simp_all

lemma nth_concat_quads:
  "k < n \<Longrightarrow> concat (map (\<lambda>k. [f0 k, f1 k, f2 k, f3 k]) [0..<n]) ! (4 * k + 3) = f3 k"
proof (induction n)
  case 0
  then show ?case by simp
next
  case (Suc n)
  show ?case
  proof (cases "k < n")
    case True
    then have "4 * k + 3 < 4 * n" by simp
    then show ?thesis
      using Suc.IH [OF True] by (simp add: nth_append length_concat_quads)
  next
    case False
    then have "k = n" using Suc.prems by simp
    then show ?thesis by (simp add: nth_append length_concat_quads)
  qed
qed

lemma wf_canvas_of [simp]: "wf_canvas (canvas_of w h a)"
  by (simp add: wf_canvas_def canvas_of_def length_concat_quads)

lemma canvas_of_dims [simp]:
  "canvas_width (canvas_of w h a) = w" "canvas_height (canvas_of w h a) = h"
  by (simp_all add: canvas_of_def)

lemma alpha_at_canvas_of:
  assumes "x < w" and "y < h"
  shows "alpha_at (canvas_of w h a) x y = a x y"
proof -
  define k where "k = y * w + x"
  have "k < y * w + w" using assms(1) by (simp add: k_def)
  also have "\<dots> = Suc y * w" by simp
  also have "\<dots> \<le> h * w" using assms(2) by (intro mult_le_mono1) simp
  finally have k: "k < w * h" by (simp add: mult.commute)
  have "k mod w = x" "k div w = y" using assms(1) by (simp_all add: k_def)
  then have "pixels_data (canvas_of w h a) ! (4 * k + 3) = a x y"
    using nth_concat_quads [OF k, of "\<lambda>_. 0" "\<lambda>_. 0" "\<lambda>_. 0" "\<lambda>k. a (k mod w) (k div w)"]
    by (simp add: canvas_of_def)
  then show ?thesis by (simp add: alpha_at_def k_def)
qed

lemma relevant_canvas_of:
  "relevant (canvas_of w h a) = {(x, y). x < w \<and> y < h \<and> a x y \<noteq> 0}"
  by (auto simp: relevant_def alpha_at_canvas_of)

lemma relevant_square: "relevant square_image = {50..<150} \<times> {50..<150}"
  by (auto simp: square_image_def relevant_canvas_of)

lemma Min_range: "a < b \<Longrightarrow> Min {a..<b} = (a::nat)"
  by (rule Min_eqI) simp_all

lemma Max_range: "a < b \<Longrightarrow> Max {a..<b} = (b::nat) - 1"
  by (rule Max_eqI) auto

lemma scan_square:
  "scan square_image =
     \<lparr>bound_top = Num 50, bound_left = Num 50, bound_right = Num 149, bound_bottom = Num 149\<rparr>"
proof -
  have "wf_canvas square_image" "canvas_height square_image < 2 ^ 31"
    by (simp_all add: square_image_def)
  moreover have "relevant square_image \<noteq> {}" by (simp add: relevant_square)
  ultimately show ?thesis
    by (simp add: scan_relevant relevant_square Min_range Max_range)
qed

section \<open>A padding with a fractional part\<close>

lemma clampBounds_d_frame:
  "clampBounds_d c b = clampBounds_d (frame (canvas_width c) (canvas_height c)) b"
  by (simp add: clampBounds_d_def clamp_key_d_def keys_def frame_def)

lemma result_of_d_frame:
  "result_of_d c filepath b = result_of_d (frame (canvas_width c) (canvas_height c)) filepath b"
  by (simp add: result_of_d_def frame_def)

lemma scan_d_square:
  "scan_d square_image =
     \<lparr>top_d = DNum 50, left_d = DNum 50, right_d = DNum 149, bottom_d = DNum 149\<rparr>"
  by (simp add: scan_d_def scan_square)

lemma cropBounds_d_square:
  "cropBounds_d square_image (DNum (fl (1 / 10))) =
     \<lparr>top_d = DNum (fl (499 / 10)), left_d = DNum (fl (499 / 10)),
      right_d = DNum (fl (1491 / 10)), bottom_d = DNum (fl (1491 / 10))\<rparr>"
proof -
  have "clampBounds_d (frame 1000 1000) (addPadding_d (DNum (fl (1 / 10)))
          \<lparr>top_d = DNum 50, left_d = DNum 50, right_d = DNum 149, bottom_d = DNum 149\<rparr>) =
     \<lparr>top_d = DNum (fl (499 / 10)), left_d = DNum (fl (499 / 10)),
      right_d = DNum (fl (1491 / 10)), bottom_d = DNum (fl (1491 / 10))\<rparr>"
    by code_simp
  moreover have "canvas_width square_image = 1000" "canvas_height square_image = 1000"
    by (simp_all add: square_image_def)
  ultimately show ?thesis
    by (simp add: cropBounds_d_def scan_d_square clampBounds_d_frame [of square_image])
qed

text \<open>
  Against claim C10 as stated, for every padding: the image of the end-to-end example
  with the padding \<open>0.1\<close>, in double arithmetic. The third geometric bound is
  \<open>149.1\<close>, and \<open>naturalWidth - right\<close> is \<open>1000 - 850.9\<close>, the next double above it.
\<close>

theorem fractional_padding_counterexample:
  "trimCanvas_d (host_with (\<lambda>p. Painted square_image)) square_image ''square.png''
       (DNum (fl (1 / 10))) =
     Inr \<lparr>name_d = ''square'', fullName_d = ''square.png'', path_d = ''square.png'',
          res_left_d = DNum (fl (499 / 10)), res_top_d = DNum (fl (499 / 10)),
          res_right_d = DNum (fl (8509 / 10)), res_bottom_d = DNum (fl (8509 / 10)),
          width_d = DNum (fl (9919999999999999 / 100000000000000)),
          height_d = DNum (fl (9919999999999999 / 100000000000000)),
          naturalWidth_d = DNum 1000, naturalHeight_d = DNum 1000,
          geometricBounds_d = [DNum (fl (499 / 10)), DNum (fl (499 / 10)),
                               DNum (fl (1491 / 10)), DNum (fl (1491 / 10))]\<rparr>
   \<and> js_sub_d (DNum 1000) (DNum (fl (8509 / 10))) =
       DNum (fl (14910000000000002 / 100000000000000))
   \<and> fl (14910000000000002 / 100000000000000) \<noteq> fl (1491 / 10)"
proof -
  let ?b = "\<lparr>top_d = DNum (fl (499 / 10)), left_d = DNum (fl (499 / 10)),
      right_d = DNum (fl (1491 / 10)), bottom_d = DNum (fl (1491 / 10))\<rparr>"
  have dims: "canvas_width square_image = 1000" "canvas_height square_image = 1000"
    by (simp_all add: square_image_def)
  have size: "\<not> getImageData_throws_d (js_sub_d (right_d ?b) (left_d ?b))
                  (js_sub_d (bottom_d ?b) (top_d ?b))"
    by code_simp
  have whole: "\<not> getImageData_throws_d (DNum (of_nat 1000)) (DNum (of_nat 1000))"
    by (simp add: getImageData_throws_d_def)
  have r: "result_of_d (frame 1000 1000) ''square.png'' ?b =
     \<lparr>name_d = ''square'', fullName_d = ''square.png'', path_d = ''square.png'',
          res_left_d = DNum (fl (499 / 10)), res_top_d = DNum (fl (499 / 10)),
          res_right_d = DNum (fl (8509 / 10)), res_bottom_d = DNum (fl (8509 / 10)),
          width_d = DNum (fl (9919999999999999 / 100000000000000)),
          height_d = DNum (fl (9919999999999999 / 100000000000000)),
          naturalWidth_d = DNum 1000, naturalHeight_d = DNum 1000,
          geometricBounds_d = [DNum (fl (499 / 10)), DNum (fl (499 / 10)),
                               DNum (fl (1491 / 10)), DNum (fl (1491 / 10))]\<rparr>"
    by code_simp
  have t: "trimCanvas_d (host_with (\<lambda>p. Painted square_image)) square_image ''square.png''
       (DNum (fl (1 / 10))) = Inr (result_of_d (frame 1000 1000) ''square.png'' ?b)"
    using size whole
    by (simp add: trimCanvas_d_def cropBounds_d_square dims host_with_def
        result_of_d_frame [of square_image])
  have s: "js_sub_d (DNum 1000) (DNum (fl (8509 / 10))) =
       DNum (fl (14910000000000002 / 100000000000000))"
    by code_simp
  have n: "fl (14910000000000002 / 100000000000000) \<noteq> fl (1491 / 10)"
    by code_simp
  from t r s n show ?thesis by simp
qed

section \<open>The end-to-end example and the full canvas\<close>

text \<open>
  Claim C1 says that the 1000 by 1000 image with the opaque square of side 100 at
  (50, 50), trimmed with padding 0, gives \<open>right = 850\<close>, \<open>bottom = 850\<close>,
  \<open>width = 100\<close>, \<open>height = 100\<close> and \<open>geometricBounds = [50, 50, 150, 150]\<close>.
  The code returns the record below: the scan finds the last opaque column and row, 149,
  and uses them as the right and bottom edges of the crop.
\<close>

theorem square_image_trim:
  "relevant square_image = {50..<150} \<times> {50..<150}
   \<and> trimCanvas (host_with (\<lambda>p. Painted square_image)) square_image ''square.png'' (Num 0) =
     Inr \<lparr>name = ''square'', fullName = ''square.png'', path = ''square.png'',
          left = Num 50, top' = Num 50, right = Num 851, bottom = Num 851,
          width = Num 99, height = Num 99, naturalWidth = Num 1000, naturalHeight = Num 1000,
          geometricBounds = [Num 50, Num 50, Num 149, Num 149]\<rparr>"
proof -
  have dims: "canvas_width square_image = 1000" "canvas_height square_image = 1000"
    by (simp_all add: square_image_def)
  have "trimCanvas (host_with (\<lambda>p. Painted square_image)) square_image ''square.png'' (Num 0) =
     Inr \<lparr>name = ''square'', fullName = ''square.png'', path = ''square.png'',
          left = Num 50, top' = Num 50, right = Num 851, bottom = Num 851,
          width = Num 99, height = Num 99, naturalWidth = Num 1000, naturalHeight = Num 1000,
          geometricBounds = [Num 50, Num 50, Num 149, Num 149]\<rparr>"
    by (simp add: trimCanvas_def cropBounds_def scan_square addPadding_eq clampBounds_eq dims
      getImageData_throws_def trimWidth_def trimHeight_def result_of_def host_with_def
      last_segment_def strip_png_def ends_with_png_def is_separator_def)
  with relevant_square show ?thesis by (rule conjI)
qed

text \<open>
  Claim C2 says that an image whose non-transparent pixels cover the whole canvas,
  trimmed with padding 0, gives \<open>width = naturalWidth\<close>, \<open>height = naturalHeight\<close> and
  all four edge distances 0. On the fully opaque 2 by 2 canvas the code returns width 1,
  height 1, and right and bottom distances 1.
\<close>

theorem full_canvas_trim:
  "relevant full22 = {..<2} \<times> {..<2}
   \<and> trimCanvas (host_with (\<lambda>p. Painted full22)) full22 ''full.png'' (Num 0) =
     Inr \<lparr>name = ''full'', fullName = ''full.png'', path = ''full.png'',
          left = Num 0, top' = Num 0, right = Num 1, bottom = Num 1,
          width = Num 1, height = Num 1, naturalWidth = Num 2, naturalHeight = Num 2,
          geometricBounds = [Num 0, Num 0, Num 1, Num 1]\<rparr>"
proof -
  have "relevant full22 = {..<2} \<times> {..<2}"
    by (auto simp: relevant_def alpha_at_def full22_def dest!: less_2_cases)
  then show ?thesis using trimCanvas_full22 by simp
qed

text \<open>
  The same on every canvas whose non-transparent pixels reach the four edges: the crop
  is one column and one row short.
\<close>

lemma covered_canvas_trim:
  assumes "wf_canvas c" and "canvas_height c < 2 ^ 31" and "relevant c \<noteq> {}"
    and "Min (fst ` relevant c) = 0" and "Max (fst ` relevant c) = canvas_width c - 1"
    and "Min (snd ` relevant c) = 0" and "Max (snd ` relevant c) = canvas_height c - 1"
    and "2 \<le> canvas_width c" and "2 \<le> canvas_height c"
    and "writeFileSync e filepath = None"
  shows "trimCanvas e c filepath (Num 0) =
     Inr \<lparr>name = strip_png (last_segment filepath), fullName = last_segment filepath,
          path = filepath,
          left = Num 0, top' = Num 0, right = Num 1, bottom = Num 1,
          width = Num (int (canvas_width c) - 1), height = Num (int (canvas_height c) - 1),
          naturalWidth = Num (int (canvas_width c)), naturalHeight = Num (int (canvas_height c)),
          geometricBounds = [Num 0, Num 0, Num (int (canvas_width c) - 1),
                             Num (int (canvas_height c) - 1)]\<rparr>"
proof -
  have s: "scan c =
     \<lparr>bound_top = Num 0, bound_left = Num 0,
      bound_right = Num (int (canvas_width c) - 1), bound_bottom = Num (int (canvas_height c) - 1)\<rparr>"
    using assms(4-9) by (simp add: scan_relevant [OF assms(1-3)] of_nat_diff)
  have b: "cropBounds c (Num 0) =
     \<lparr>bound_top = Num 0, bound_left = Num 0,
      bound_right = Num (int (canvas_width c) - 1), bound_bottom = Num (int (canvas_height c) - 1)\<rparr>"
    using assms(8,9) by (simp add: cropBounds_def s addPadding_eq clampBounds_eq)
  show ?thesis
    using assms(8-10)
    by (simp add: trimCanvas_def b getImageData_throws_def trimWidth_def trimHeight_def
        result_of_def)
qed

section \<open>Fully transparent images\<close>

lemma relevant_blank22: "relevant blank22 = {}"
  by (auto simp: relevant_def alpha_at_def blank22_def dest!: less_2_cases)

text \<open>
  Claim C3, as the code has it. The code does not detect a fully transparent image: the
  scan leaves the four bounds \<open>null\<close>, the padding arithmetic reads \<open>null\<close> as 0, and
  with an integer padding \<open>p \<ge> 1\<close> the image is processed like any other. The promise
  of \<open>trimItem\<close> resolves, without an error, with the record of the crop of the top
  left corner, \<open>min p width\<close> wide and \<open>min p height\<close> high.
\<close>

theorem transparent_image_cropped:
  assumes "wf_canvas c" and "0 < canvas_width c" and "0 < canvas_height c"
    and "relevant c = {}" and "1 \<le> p"
    and "source e targFile = Painted c" and "writeFileSync e targFile = None"
  shows "scan c = initial_bound
       \<and> trimItem e targFile (Num p) =
           Resolved \<lparr>name = strip_png (last_segment targFile),
                     fullName = last_segment targFile, path = targFile,
                     left = Num 0, top' = Num 0,
                     right = Num (int (canvas_width c) - min p (int (canvas_width c))),
                     bottom = Num (int (canvas_height c) - min p (int (canvas_height c))),
                     width = Num (min p (int (canvas_width c))),
                     height = Num (min p (int (canvas_height c))),
                     naturalWidth = Num (int (canvas_width c)),
                     naturalHeight = Num (int (canvas_height c)),
                     geometricBounds = [Num 0, Num 0, Num (min p (int (canvas_width c))),
                                        Num (min p (int (canvas_height c)))]\<rparr>"
proof -
  have b: "cropBounds c (Num p) =
     \<lparr>bound_top = Num 0, bound_left = Num 0,
      bound_right = Num (min p (int (canvas_width c))),
      bound_bottom = Num (min p (int (canvas_height c)))\<rparr>"
    using assms(5) by (intro cropBounds_transparent assms) simp
  have "trimCanvas e c targFile (Num p) = Inr (result_of c targFile (cropBounds c (Num p)))"
    using assms(2,3,5,7)
    by (simp add: trimCanvas_def b getImageData_throws_def trimWidth_def trimHeight_def min_def)
  then show ?thesis
    using assms(6)
    by (simp add: trimItem_def scan_transparent [OF assms(1,4)] b result_of_def)
qed

text \<open>The transparent 2 by 2 canvas with padding 3: the whole canvas is kept.\<close>

theorem transparent_image_cropped_witness:
  "wf_canvas blank22 \<and> relevant blank22 = {}
   \<and> source (host_with (\<lambda>p. Painted blank22)) ''blank.png'' = Painted blank22
   \<and> writeFileSync (host_with (\<lambda>p. Painted blank22)) ''blank.png'' = None
   \<and> trimItem (host_with (\<lambda>p. Painted blank22)) ''blank.png'' (Num 3) =
       Resolved \<lparr>name = ''blank'', fullName = ''blank.png'', path = ''blank.png'',
                 left = Num 0, top' = Num 0, right = Num 0, bottom = Num 0,
                 width = Num 2, height = Num 2, naturalWidth = Num 2, naturalHeight = Num 2,
                 geometricBounds = [Num 0, Num 0, Num 2, Num 2]\<rparr>"
proof -
  have h: "wf_canvas blank22" "0 < canvas_width blank22" "0 < canvas_height blank22"
    "relevant blank22 = {}" "(1::int) \<le> 3"
    "source (host_with (\<lambda>p. Painted blank22)) ''blank.png'' = Painted blank22"
    "writeFileSync (host_with (\<lambda>p. Painted blank22)) ''blank.png'' = None"
    by (simp_all add: relevant_blank22 host_with_def) (simp_all add: wf_canvas_def blank22_def)
  have dims: "canvas_width blank22 = 2" "canvas_height blank22 = 2"
    by (simp_all add: blank22_def)
  show ?thesis
    using h(1,4,6,7) transparent_image_cropped [OF h]
    by (simp add: dims last_segment_def strip_png_def ends_with_png_def is_separator_def)
qed

text \<open>
  Against the claim as stated: the transparent 2 by 2 canvas with padding 1. \<open>trim\<close>
  resolves with one record, of a crop 1 pixel wide and 1 pixel high; the outcome is
  neither an error nor the unmodified file.
\<close>

theorem transparent_image_counterexample:
  "relevant blank22 = {}
   \<and> trim (host_with (\<lambda>p. Painted blank22)) (Single ''blank.png'') (Num 1) [0] =
     Resolved [\<lparr>name = ''blank'', fullName = ''blank.png'', path = ''blank.png'',
          left = Num 0, top' = Num 0, right = Num 1, bottom = Num 1,
          width = Num 1, height = Num 1, naturalWidth = Num 2, naturalHeight = Num 2,
          geometricBounds = [Num 0, Num 0, Num 1, Num 1]\<rparr>]"
proof -
  have "trim (host_with (\<lambda>p. Painted blank22)) (Single ''blank.png'') (Num 1) [0] =
     Resolved [\<lparr>name = ''blank'', fullName = ''blank.png'', path = ''blank.png'',
          left = Num 0, top' = Num 0, right = Num 1, bottom = Num 1,
          width = Num 1, height = Num 1, naturalWidth = Num 2, naturalHeight = Num 2,
          geometricBounds = [Num 0, Num 0, Num 1, Num 1]\<rparr>]"
    by code_simp
  then show ?thesis using relevant_blank22 by simp
qed

text \<open>
  With padding 0 the crop rectangle of a transparent image has no area: \<open>trimCanvas\<close>
  throws inside the \<open>onload\<close> callback and the promise of \<open>trimItem\<close> never settles.
\<close>

lemma transparent_image_padding_zero:
  assumes "wf_canvas c" and "0 < canvas_width c" and "0 < canvas_height c"
    and "relevant c = {}" and "source e targFile = Painted c"
  shows "trimCanvas e c targFile (Num 0) = Inl IndexSizeError"
    and "trimItem e targFile (Num 0) = Pending"
proof -
  have b0: "cropBounds c (Num 0) =
     \<lparr>bound_top = Num 0, bound_left = Num 0, bound_right = Num 0, bound_bottom = Num 0\<rparr>"
    using cropBounds_transparent [OF assms(1,4), of 0] by simp
  show "trimCanvas e c targFile (Num 0) = Inl IndexSizeError"
    using assms(2,3)
    by (simp add: trimCanvas_def b0 getImageData_throws_def trimWidth_def trimHeight_def)
  then show "trimItem e targFile (Num 0) = Pending"
    using assms(5) by (simp add: trimItem_def)
qed

section \<open>\<open>Promise.all\<close>\<close>

lemma finite_unfilled [simp]: "finite (unfilled slots)"
  by (simp add: unfilled_def)

lemma unfilled_less: "i \<in> unfilled slots \<Longrightarrow> i < length slots"
  by (simp add: unfilled_def)

lemma unfilled_update:
  "k < length slots \<Longrightarrow> unfilled (slots[k := Some v]) = unfilled slots - {k}"
  by (auto simp: unfilled_def nth_list_update)

lemma card_unfilled_update:
  assumes "k < length slots" and "slots ! k = None"
  shows "card (unfilled (slots[k := Some v])) = card (unfilled slots) - 1"
proof -
  have "k \<in> unfilled slots" using assms by (simp add: unfilled_def)
  then show ?thesis by (simp add: unfilled_update [OF assms(1)])
qed

lemma map_filter_Some: "List.map_filter (\<lambda>slot. slot) (map Some vs) = vs"
  by (induction vs) (simp_all add: List.map_filter_simps)

lemma all_settle_skip:
  "\<not> k < length ps \<or> ps ! k = Pending \<or> (\<exists>v. ps ! k = Resolved v \<and> slots ! k \<noteq> None) \<Longrightarrow>
   all_settle ps (k # ks) slots remaining = all_settle ps ks slots remaining"
  by auto

lemma all_settle_fill:
  "k < length ps \<Longrightarrow> ps ! k = Resolved v \<Longrightarrow> slots ! k = None \<Longrightarrow>
   all_settle ps (k # ks) slots remaining =
     (if remaining - 1 = 0 then Resolved (List.map_filter (\<lambda>slot. slot) (slots[k := Some v]))
      else all_settle ps ks (slots[k := Some v]) (remaining - 1))"
  by simp

lemma all_settle_reject:
  "k < length ps \<Longrightarrow> ps ! k = Rejected err \<Longrightarrow>
   all_settle ps (k # ks) slots remaining = Rejected err"
  by simp

lemma all_settle_resolved:
  assumes "length slots = length vs"
    and "\<forall>i<length vs. slots ! i = None \<or> slots ! i = Some (vs ! i)"
    and "remaining = card (unfilled slots)" and "0 < remaining"
    and "unfilled slots \<subseteq> set ks"
  shows "all_settle (map Resolved vs) ks slots remaining = Resolved vs"
  using assms
proof (induction ks arbitrary: slots remaining)
  case Nil
  then show ?case by simp
next
  case (Cons k ks)
  let ?ps = "map Resolved vs"
  show ?case
  proof (cases "k < length vs \<and> slots ! k = None")
    case False
    then have "k \<notin> unfilled slots"
      using Cons.prems(1) by (auto simp: unfilled_def)
    then have sub: "unfilled slots \<subseteq> set ks" using Cons.prems(5) by auto
    have "all_settle ?ps (k # ks) slots remaining = all_settle ?ps ks slots remaining"
      using False by (intro all_settle_skip) auto
    also have "\<dots> = Resolved vs"
      using Cons.prems(1-4) sub by (intro Cons.IH) simp_all
    finally show ?thesis .
  next
    case True
    then have k: "k < length vs" and none: "slots ! k = None" by simp_all
    let ?slots = "slots[k := Some (vs ! k)]"
    have klen: "k < length slots" using k Cons.prems(1) by simp
    have step: "all_settle ?ps (k # ks) slots remaining =
        (if remaining - 1 = 0 then Resolved (List.map_filter (\<lambda>slot. slot) ?slots)
         else all_settle ?ps ks ?slots (remaining - 1))"
      using k none by (intro all_settle_fill) simp_all
    have len: "length ?slots = length vs" using Cons.prems(1) by simp
    have slots: "\<forall>i<length vs. ?slots ! i = None \<or> ?slots ! i = Some (vs ! i)"
      using Cons.prems(1,2) klen by (auto simp: nth_list_update)
    have card: "remaining - 1 = card (unfilled ?slots)"
      using Cons.prems(3) by (simp add: card_unfilled_update [OF klen none])
    have sub: "unfilled ?slots \<subseteq> set ks"
      using Cons.prems(5) by (auto simp: unfilled_update [OF klen])
    show ?thesis
    proof (cases "remaining - 1 = 0")
      case True
      then have "unfilled ?slots = {}" using card by simp
      then have "\<forall>i<length vs. ?slots ! i \<noteq> None"
        using len by (auto simp: unfilled_def)
      then have "\<forall>i<length vs. ?slots ! i = Some (vs ! i)"
        using slots by blast
      then have "?slots = map Some vs"
        using len by (intro nth_equalityI) simp_all
      then show ?thesis using step True by (simp add: map_filter_Some)
    next
      case False
      then have "all_settle ?ps ks ?slots (remaining - 1) = Resolved vs"
        using len slots card sub by (intro Cons.IH) simp_all
      then show ?thesis using step False by simp
    qed
  qed
qed

lemma promise_all_resolved:
  assumes "{..<length vs} \<subseteq> set order"
  shows "promise_all (map Resolved vs) order = Resolved vs"
proof (cases "vs = []")
  case True
  then show ?thesis by (simp add: promise_all_def)
next
  case False
  have u: "unfilled (replicate (length vs) None :: 'a option list) = {..<length vs}"
    by (auto simp: unfilled_def)
  have "all_settle (map Resolved vs) order (replicate (length vs) None) (length vs) = Resolved vs"
    using False assms by (intro all_settle_resolved) (simp_all add: u)
  then show ?thesis using False by (simp add: promise_all_def)
qed

text \<open>A promise that is not resolved keeps its slot empty, so the count stays positive.\<close>

lemma all_settle_unresolved:
  assumes "length slots = length ps"
    and "remaining = card (unfilled slots)"
    and "j < length ps" and "\<forall>v. ps ! j \<noteq> Resolved v" and "slots ! j = None"
  shows "(\<exists>k err. k \<in> set ks \<and> k < length ps \<and> ps ! k = Rejected err
                  \<and> all_settle ps ks slots remaining = Rejected err)
       \<or> ((\<forall>k\<in>set ks. k < length ps \<longrightarrow> (\<forall>err. ps ! k \<noteq> Rejected err))
                  \<and> all_settle ps ks slots remaining = Pending)"
  using assms
proof (induction ks arbitrary: slots remaining)
  case Nil
  then show ?case by simp
next
  case (Cons k ks)
  show ?case
  proof (cases "k < length ps")
    case False
    then have "all_settle ps (k # ks) slots remaining = all_settle ps ks slots remaining"
      by simp
    moreover note Cons.IH [OF Cons.prems]
    ultimately show ?thesis using False by auto
  next
    case k: True
    show ?thesis
    proof (cases "ps ! k")
      case (Rejected err)
      then show ?thesis using k by auto
    next
      case Pending
      then have "all_settle ps (k # ks) slots remaining = all_settle ps ks slots remaining"
        using k by simp
      moreover note Cons.IH [OF Cons.prems]
      ultimately show ?thesis using Pending by auto
    next
      case (Resolved v)
      show ?thesis
      proof (cases "slots ! k = None")
        case False
        then have "all_settle ps (k # ks) slots remaining = all_settle ps ks slots remaining"
          using k Resolved by simp
        moreover note Cons.IH [OF Cons.prems]
        ultimately show ?thesis using Resolved by auto
      next
        case none: True
        let ?slots = "slots[k := Some v]"
        have klen: "k < length slots" using k Cons.prems(1) by simp
        have kj: "k \<noteq> j" using Resolved Cons.prems(4) by auto
        have "{k, j} \<subseteq> unfilled slots"
          using klen none Cons.prems(1,3,5) by (simp add: unfilled_def)
        then have "card {k, j} \<le> card (unfilled slots)"
          by (intro card_mono) simp_all
        then have "2 \<le> remaining" using kj Cons.prems(2) by simp
        then have step: "all_settle ps (k # ks) slots remaining =
            all_settle ps ks ?slots (remaining - 1)"
          using k Resolved none by simp
        have "(\<exists>k err. k \<in> set ks \<and> k < length ps \<and> ps ! k = Rejected err
                  \<and> all_settle ps ks ?slots (remaining - 1) = Rejected err)
           \<or> ((\<forall>k\<in>set ks. k < length ps \<longrightarrow> (\<forall>err. ps ! k \<noteq> Rejected err))
                  \<and> all_settle ps ks ?slots (remaining - 1) = Pending)"
          using Cons.prems kj
          by (intro Cons.IH) (simp_all add: card_unfilled_update [OF klen none])
        then show ?thesis using step Resolved by auto
      qed
    qed
  qed
qed

lemma promise_all_unresolved:
  fixes ps :: "'a promise list"
  assumes "j < length ps" and "\<forall>v. ps ! j \<noteq> Resolved v"
  shows "(\<exists>k err. k \<in> set order \<and> k < length ps \<and> ps ! k = Rejected err
                  \<and> promise_all ps order = Rejected err)
       \<or> ((\<forall>k\<in>set order. k < length ps \<longrightarrow> (\<forall>err. ps ! k \<noteq> Rejected err))
                  \<and> promise_all ps order = Pending)"
proof -
  have ne: "ps \<noteq> []" using assms(1) by auto
  have u: "unfilled (replicate (length ps) None :: 'a option list) = {..<length ps}"
    by (auto simp: unfilled_def)
  have "(\<exists>k err. k \<in> set order \<and> k < length ps \<and> ps ! k = Rejected err
            \<and> all_settle ps order (replicate (length ps) None) (length ps) = Rejected err)
       \<or> ((\<forall>k\<in>set order. k < length ps \<longrightarrow> (\<forall>err. ps ! k \<noteq> Rejected err))
            \<and> all_settle ps order (replicate (length ps) None) (length ps) = Pending)"
  proof (rule all_settle_unresolved)
    show "length (replicate (length ps) None :: 'a option list) = length ps" by simp
    show "length ps = card (unfilled (replicate (length ps) None :: 'a option list))"
      by (simp add: u)
    show "j < length ps" by (rule assms(1))
    show "\<forall>v. ps ! j \<noteq> Resolved v" by (rule assms(2))
    show "(replicate (length ps) None :: 'a option list) ! j = None" using assms(1) by simp
  qed
  then show ?thesis using ne by (simp add: promise_all_def)
qed

section \<open>The batch\<close>

lemma trim_eq:
  assumes "unfold_folders e (filter (exists e) (as_list input)) = Inr unfolded"
    and "paths = filter ends_with_png (concat unfolded)"
  shows "trim e input padding order =
     (if paths = [] then Resolved []
      else promise_all (map (\<lambda>item. trimItem e item (coerce_padding padding)) paths) order)"
  using assms by (simp add: trim_def Let_def)

lemma trimItem_path: "trimItem e item p = Resolved r \<Longrightarrow> path r = item"
  by (auto simp: trimItem_def result_of_def dest!: trimCanvas_Inr(5)
      split: source.splits sum.splits)

lemma unfold_folders_host:
  "exists e' = exists e \<Longrightarrow> isFolder e' = isFolder e \<Longrightarrow> readdir e' = readdir e \<Longrightarrow>
   unfold_folders e' xs = unfold_folders e xs"
  by (induction xs) (simp_all add: readDir_def split: sum.splits)

lemma two_items:
  assumes "\<exists>r. F a = Resolved r" and "\<exists>r. F b = Resolved r"
  shows "\<forall>i<length [a, b]. \<exists>r. F ([a, b] ! i) = Resolved r"
  using assms by (auto simp: less_Suc_eq)

lemma two_results:
  assumes "\<exists>rs. T = Resolved rs \<and> length rs = length [a, b]
             \<and> (\<forall>i<length [a, b]. Q i rs \<and> path (rs ! i) = [a, b] ! i)"
  shows "\<exists>rs. T = Resolved rs \<and> length rs = 2 \<and> path (rs ! 0) = a \<and> path (rs ! 1) = b"
proof -
  from assms obtain rs where rs: "T = Resolved rs" "length rs = length [a, b]"
    "\<forall>i<length [a, b]. Q i rs \<and> path (rs ! i) = [a, b] ! i"
    by blast
  from rs(3) have "path (rs ! 0) = a" "path (rs ! 1) = b" by simp_all
  then show ?thesis using rs(1,2) by simp
qed

text \<open>
  Claim C8, as the code has it. Let \<open>paths\<close> be the paths that survive the filters, in
  the order of the input. When every per-image promise resolves, \<open>trim\<close> resolves with
  exactly one record per surviving path, the record at position \<open>i\<close> being the one of
  path \<open>i\<close>, whatever the order in which the promises settle. When no path survives,
  \<open>trim\<close> resolves with the empty list, whatever the host would answer to a pipeline.
\<close>

theorem trim_input_order:
  assumes "unfold_folders e (filter (exists e) (as_list input)) = Inr unfolded"
    and "paths = filter ends_with_png (concat unfolded)"
  shows "(paths = [] \<longrightarrow> trim e input padding order = Resolved [])
       \<and> (paths = [] \<longrightarrow>
            (\<forall>s w. trim (e\<lparr>source := s, writeFileSync := w\<rparr>) input padding order = Resolved []))
       \<and> ((\<forall>i<length paths. \<exists>r. trimItem e (paths ! i) (coerce_padding padding) = Resolved r)
            \<and> {..<length paths} \<subseteq> set order \<longrightarrow>
          (\<exists>rs. trim e input padding order = Resolved rs \<and> length rs = length paths
             \<and> (\<forall>i<length paths. trimItem e (paths ! i) (coerce_padding padding) = Resolved (rs ! i)
                    \<and> path (rs ! i) = paths ! i)))"
proof (intro conjI impI allI)
  assume "paths = []"
  then show "trim e input padding order = Resolved []"
    by (simp add: trim_eq [OF assms])
next
  fix s w
  assume empty: "paths = []"
  let ?e = "e\<lparr>source := s, writeFileSync := w\<rparr>"
  have "unfold_folders ?e (filter (exists ?e) (as_list input)) = Inr unfolded"
    using assms(1) unfold_folders_host [of ?e e] by simp
  from trim_eq [OF this assms(2)] empty
  show "trim ?e input padding order = Resolved []" by simp
next
  assume a: "(\<forall>i<length paths. \<exists>r. trimItem e (paths ! i) (coerce_padding padding) = Resolved r)
            \<and> {..<length paths} \<subseteq> set order"
  then have "\<exists>f. \<forall>i<length paths. trimItem e (paths ! i) (coerce_padding padding) = Resolved (f i)"
    by metis
  then obtain f where f: "\<forall>i<length paths.
      trimItem e (paths ! i) (coerce_padding padding) = Resolved (f i)" ..
  define rs where "rs = map f [0..<length paths]"
  have len: "length rs = length paths" by (simp add: rs_def)
  have each: "\<forall>i<length paths. trimItem e (paths ! i) (coerce_padding padding) = Resolved (rs ! i)"
    using f by (simp add: rs_def)
  then have "map (\<lambda>item. trimItem e item (coerce_padding padding)) paths = map Resolved rs"
    using len by (intro nth_equalityI) simp_all
  moreover have "{..<length rs} \<subseteq> set order" using a len by simp
  ultimately have "trim e input padding order = Resolved rs"
    using len by (auto simp: trim_eq [OF assms] promise_all_resolved)
  moreover have "\<forall>i<length paths. path (rs ! i) = paths ! i"
    using each by (auto dest: trimItem_path)
  ultimately show "\<exists>rs. trim e input padding order = Resolved rs \<and> length rs = length paths
             \<and> (\<forall>i<length paths. trimItem e (paths ! i) (coerce_padding padding) = Resolved (rs ! i)
                    \<and> path (rs ! i) = paths ! i)"
    using len each by blast
qed

text \<open>
  Two images and a text file, the second image settling first: the two records come back
  in the order of the input.
\<close>

theorem trim_input_order_witness:
  "unfold_folders (host_with (\<lambda>p. Painted full22))
       (filter (exists (host_with (\<lambda>p. Painted full22)))
          (as_list (Many [''a.png'', ''notes.txt'', ''b.png'']))) =
     Inr [[''a.png''], [''notes.txt''], [''b.png'']]
   \<and> [''a.png'', ''b.png''] = filter ends_with_png (concat [[''a.png''], [''notes.txt''], [''b.png'']])
   \<and> {..<length [''a.png'', ''b.png'']} \<subseteq> set [1, 0 :: nat]
   \<and> (\<exists>rs. trim (host_with (\<lambda>p. Painted full22)) (Many [''a.png'', ''notes.txt'', ''b.png''])
               (Num 0) [1, 0] = Resolved rs
          \<and> length rs = 2 \<and> path (rs ! 0) = ''a.png'' \<and> path (rs ! 1) = ''b.png'')"
proof -
  let ?e = "host_with (\<lambda>p. Painted full22)"
  have h1: "unfold_folders ?e (filter (exists ?e) (as_list (Many [''a.png'', ''notes.txt'', ''b.png'']))) =
     Inr [[''a.png''], [''notes.txt''], [''b.png'']]"
    by code_simp
  have h2: "[''a.png'', ''b.png''] =
      filter ends_with_png (concat [[''a.png''], [''notes.txt''], [''b.png'']])"
    by code_simp
  have "trimItem ?e ''a.png'' (coerce_padding (Num 0)) =
      Resolved \<lparr>name = ''a'', fullName = ''a.png'', path = ''a.png'',
          left = Num 0, top' = Num 0, right = Num 1, bottom = Num 1,
          width = Num 1, height = Num 1, naturalWidth = Num 2, naturalHeight = Num 2,
          geometricBounds = [Num 0, Num 0, Num 1, Num 1]\<rparr>"
    by code_simp
  then have a: "\<exists>r. trimItem ?e ''a.png'' (coerce_padding (Num 0)) = Resolved r" ..
  have "trimItem ?e ''b.png'' (coerce_padding (Num 0)) =
      Resolved \<lparr>name = ''b'', fullName = ''b.png'', path = ''b.png'',
          left = Num 0, top' = Num 0, right = Num 1, bottom = Num 1,
          width = Num 1, height = Num 1, naturalWidth = Num 2, naturalHeight = Num 2,
          geometricBounds = [Num 0, Num 0, Num 1, Num 1]\<rparr>"
    by code_simp
  then have b: "\<exists>r. trimItem ?e ''b.png'' (coerce_padding (Num 0)) = Resolved r" ..
  have each: "\<forall>i<length [''a.png'', ''b.png''].
      \<exists>r. trimItem ?e ([''a.png'', ''b.png''] ! i) (coerce_padding (Num 0)) = Resolved r"
    using a b by (rule two_items)
  have cover: "{..<length [''a.png'', ''b.png'']} \<subseteq> set [1, 0 :: nat]"
    by (auto simp: less_Suc_eq)
  have "(\<forall>i<length [''a.png'', ''b.png''].
      \<exists>r. trimItem ?e ([''a.png'', ''b.png''] ! i) (coerce_padding (Num 0)) = Resolved r)
      \<and> {..<length [''a.png'', ''b.png'']} \<subseteq> set [1, 0 :: nat]"
    using each cover by (rule conjI)
  with trim_input_order [OF h1 h2, of "Num 0" "[1, 0]", THEN conjunct2, THEN conjunct2]
  have "\<exists>rs. trim ?e (Many [''a.png'', ''notes.txt'', ''b.png'']) (Num 0) [1, 0] = Resolved rs
      \<and> length rs = length [''a.png'', ''b.png'']
      \<and> (\<forall>i<length [''a.png'', ''b.png''].
            trimItem ?e ([''a.png'', ''b.png''] ! i) (coerce_padding (Num 0)) = Resolved (rs ! i)
            \<and> path (rs ! i) = [''a.png'', ''b.png''] ! i)"
    by (rule mp)
  then have "\<exists>rs. trim ?e (Many [''a.png'', ''notes.txt'', ''b.png'']) (Num 0) [1, 0] = Resolved rs
          \<and> length rs = 2 \<and> path (rs ! 0) = ''a.png'' \<and> path (rs ! 1) = ''b.png''"
    by (rule two_results)
  with h1 h2 cover show ?thesis
    by (intro conjI) assumption+
qed

text \<open>
  Against claim C8 as stated, for every list of paths: three surviving paths of which
  \<open>a.png\<close> cannot be read give no result at all, in either order of completion; and a
  single image with one non-transparent pixel, trimmed with the default padding, leaves
  \<open>trim\<close> pending.
\<close>

theorem trim_input_order_counterexample:
  "filter ends_with_png [''b.png'', ''a.png'', ''c.png''] = [''b.png'', ''a.png'', ''c.png'']
   \<and> trim failing_host (Many [''b.png'', ''a.png'', ''c.png'']) (Num 0) [0, 1, 2] =
       Rejected (HostError ''EACCES'')
   \<and> trim failing_host (Many [''b.png'', ''a.png'', ''c.png'']) (Num 0) [2, 1, 0] =
       Rejected (HostError ''EACCES'')
   \<and> trim (host_with (\<lambda>p. Painted dot22)) (Single ''dot.png'') Undefined [0] = Pending"
  by code_simp

text \<open>
  When one per-image promise does not resolve, \<open>trim\<close> never resolves: it is rejected
  with the error of a rejected image, or, when none of the promises that settle is
  rejected, it stays pending.
\<close>

lemma trim_failure_propagates:
  assumes "unfold_folders e (filter (exists e) (as_list input)) = Inr unfolded"
    and "paths = filter ends_with_png (concat unfolded)"
    and "j < length paths"
    and "\<forall>r. trimItem e (paths ! j) (coerce_padding padding) \<noteq> Resolved r"
  shows "(\<forall>rs. trim e input padding order \<noteq> Resolved rs)
       \<and> ((\<exists>k err. k \<in> set order \<and> k < length paths
              \<and> trimItem e (paths ! k) (coerce_padding padding) = Rejected err
              \<and> trim e input padding order = Rejected err)
          \<or> ((\<forall>k\<in>set order. k < length paths \<longrightarrow>
                 (\<forall>err. trimItem e (paths ! k) (coerce_padding padding) \<noteq> Rejected err))
              \<and> trim e input padding order = Pending))"
proof -
  let ?ps = "map (\<lambda>item. trimItem e item (coerce_padding padding)) paths"
  have ne: "paths \<noteq> []" using assms(3) by auto
  have t: "trim e input padding order = promise_all ?ps order"
    using ne by (simp add: trim_eq [OF assms(1,2)])
  have "j < length ?ps" "\<forall>v. ?ps ! j \<noteq> Resolved v"
    using assms(3,4) by simp_all
  from promise_all_unresolved [OF this, of order]
  have d: "(\<exists>k err. k \<in> set order \<and> k < length paths
              \<and> trimItem e (paths ! k) (coerce_padding padding) = Rejected err
              \<and> trim e input padding order = Rejected err)
          \<or> ((\<forall>k\<in>set order. k < length paths \<longrightarrow>
                 (\<forall>err. trimItem e (paths ! k) (coerce_padding padding) \<noteq> Rejected err))
              \<and> trim e input padding order = Pending)"
    unfolding t by (auto simp: nth_map)
  then have "\<forall>rs. trim e input padding order \<noteq> Resolved rs" by auto
  then show ?thesis using d by blast
qed

text \<open>
  Claim C4, as the code has it. A failure is not isolated: \<open>trim\<close> awaits
  \<open>Promise.all\<close>, so when the promise of one image is rejected and that promise is among
  those that settle, \<open>trim\<close> is rejected with the error of a rejected image, whatever
  the order of completion, and returns no sequence of results.
\<close>

theorem trim_rejects_whole_batch:
  assumes "unfold_folders e (filter (exists e) (as_list input)) = Inr unfolded"
    and "paths = filter ends_with_png (concat unfolded)"
    and "j < length paths"
    and "trimItem e (paths ! j) (coerce_padding padding) = Rejected err0"
    and "j \<in> set order"
  shows "\<exists>k err. k \<in> set order \<and> k < length paths
              \<and> trimItem e (paths ! k) (coerce_padding padding) = Rejected err
              \<and> trim e input padding order = Rejected err"
proof -
  have "\<forall>r. trimItem e (paths ! j) (coerce_padding padding) \<noteq> Resolved r"
    using assms(4) by simp
  from trim_failure_propagates [OF assms(1,2,3) this, of order] assms(3,4,5)
  show ?thesis by blast
qed

text \<open>
  Two images, the second unreadable, settling in the order of the input, with the default
  padding.
\<close>

theorem trim_rejects_whole_batch_witness:
  "unfold_folders failing_host (filter (exists failing_host) (as_list (Many [''b.png'', ''a.png'']))) =
     Inr [[''b.png''], [''a.png'']]
   \<and> [''b.png'', ''a.png''] = filter ends_with_png (concat [[''b.png''], [''a.png'']])
   \<and> (1::nat) < length [''b.png'', ''a.png'']
   \<and> trimItem failing_host ([''b.png'', ''a.png''] ! 1) (coerce_padding Undefined) =
        Rejected (HostError ''EACCES'')
   \<and> (1::nat) \<in> set [0, 1]
   \<and> trim failing_host (Many [''b.png'', ''a.png'']) Undefined [0, 1] =
        Rejected (HostError ''EACCES'')"
proof -
  have h1: "unfold_folders failing_host
        (filter (exists failing_host) (as_list (Many [''b.png'', ''a.png'']))) =
      Inr [[''b.png''], [''a.png'']]"
    by code_simp
  have h2: "[''b.png'', ''a.png''] = filter ends_with_png (concat [[''b.png''], [''a.png'']])"
    by code_simp
  have h3: "(1::nat) < length [''b.png'', ''a.png'']" by simp
  have h4: "trimItem failing_host ([''b.png'', ''a.png''] ! 1) (coerce_padding Undefined) =
        Rejected (HostError ''EACCES'')"
    by code_simp
  have h5: "(1::nat) \<in> set [0, 1]" by simp
  note h = h1 h2 h3 h4 h5
  from trim_rejects_whole_batch [OF h]
  obtain k err where "trim failing_host (Many [''b.png'', ''a.png'']) Undefined [0, 1] = Rejected err"
    by blast
  moreover have "trim failing_host (Many [''b.png'', ''a.png'']) Undefined [0, 1] =
      Rejected (HostError ''EACCES'')"
    by code_simp
  ultimately show ?thesis using h by (intro conjI) assumption+
qed

text \<open>
  Against the claim as stated: \<open>a.png\<close> cannot be read and \<open>b.png\<close> is a good image
  whose own pipeline resolves. In both orders of completion \<open>trim\<close> is rejected and the
  record of \<open>b.png\<close> is not reported.
\<close>

theorem batch_isolation_counterexample:
  "trimItem failing_host ''b.png'' (Num 0) =
     Resolved \<lparr>name = ''b'', fullName = ''b.png'', path = ''b.png'',
          left = Num 0, top' = Num 0, right = Num 1, bottom = Num 1,
          width = Num 1, height = Num 1, naturalWidth = Num 2, naturalHeight = Num 2,
          geometricBounds = [Num 0, Num 0, Num 1, Num 1]\<rparr>
   \<and> trimItem failing_host ''a.png'' (Num 0) = Rejected (HostError ''EACCES'')
   \<and> trim failing_host (Many [''a.png'', ''b.png'']) (Num 0) [0, 1] = Rejected (HostError ''EACCES'')
   \<and> trim failing_host (Many [''a.png'', ''b.png'']) (Num 0) [1, 0] = Rejected (HostError ''EACCES'')"
  by code_simp

text \<open>An image that never fires \<open>onload\<close> leaves the whole batch pending.\<close>

lemma stalled_batch:
  "trim stalled_host (Many [''a.png'', ''b.png'']) (Num 0) [1] = Pending"
  by code_simp

end
